theory Spec2Isabelle
  imports Main "HOL-Library.AList" "HOL-Library.Sublist"
begin

section \<open>JavaScript values\<close>

text \<open>
  Documents (queries, updates, field descriptors, permission maps) are JSON-shaped
  JavaScript values. An object is an association list in insertion order;
  \<^verbatim>\<open>for ... in\<close>, \<^verbatim>\<open>Object.keys\<close> and \<^verbatim>\<open>JSON.stringify\<close> visit the keys that are array
  indices first, in ascending order, and then the other keys in insertion order
  (\<open>ownProps\<close> below). Numbers are restricted to integers; strings are byte lists.
  \<open>JUndefined\<close> is the value \<^verbatim>\<open>undefined\<close>, which a property read of a missing key gives.
\<close>

datatype json =
    JUndefined
  | JNull
  | JBool bool
  | JNum int
  | JStr string
  | JArr "json list"
  | JObj "(string \<times> json) list"

text \<open>
  What a call can fail with: a JavaScript \<^verbatim>\<open>TypeError\<close> (a property read on
  \<^verbatim>\<open>null\<close>/\<^verbatim>\<open>undefined\<close>, a call of something that is not a function), a
  \<^verbatim>\<open>Parse.Error(code, message)\<close>, or an error object of the database driver with its
  \<^verbatim>\<open>code\<close>.
\<close>

datatype error =
    TypeError
  | ParseError nat string
  | DriverError string

definition OBJECT_NOT_FOUND :: nat where "OBJECT_NOT_FOUND = 101"
definition INVALID_JSON :: nat where "INVALID_JSON = 107"
definition OPERATION_FORBIDDEN :: nat where "OPERATION_FORBIDDEN = 119"
definition INVALID_NESTED_KEY :: nat where "INVALID_NESTED_KEY = 121"

text \<open>Characters that a string literal cannot hold.\<close>

abbreviation (input) bslash :: char where "bslash \<equiv> CHR 0x5C"
abbreviation (input) squote :: char where "squote \<equiv> CHR 0x27"
abbreviation (input) btick :: char where "btick \<equiv> CHR 0x60"
abbreviation (input) dquote :: char where "dquote \<equiv> CHR 0x22"

subsection \<open>Operators of the language\<close>

text \<open>\<^verbatim>\<open>typeof\<close>: \<^verbatim>\<open>null\<close> and arrays are objects.\<close>

datatype jstype = TUndefined | TObject | TBoolean | TNumber | TString

fun typeof :: "json \<Rightarrow> jstype" where
  "typeof JUndefined = TUndefined"
| "typeof JNull = TObject"
| "typeof (JBool b) = TBoolean"
| "typeof (JNum n) = TNumber"
| "typeof (JStr s) = TString"
| "typeof (JArr xs) = TObject"
| "typeof (JObj kvs) = TObject"

text \<open>What a condition takes for true.\<close>

fun truthy :: "json \<Rightarrow> bool" where
  "truthy JUndefined = False"
| "truthy JNull = False"
| "truthy (JBool b) = b"
| "truthy (JNum n) = (n \<noteq> 0)"
| "truthy (JStr s) = (s \<noteq> [])"
| "truthy (JArr xs) = True"
| "truthy (JObj kvs) = True"

fun isArray :: "json \<Rightarrow> bool" where
  "isArray (JArr xs) = True"
| "isArray _ = False"

fun nullish :: "json \<Rightarrow> bool" where
  "nullish JUndefined = True"
| "nullish JNull = True"
| "nullish _ = False"

text \<open>
  \<^verbatim>\<open>v.key\<close> for the keys the compilers read (operator names, \<^verbatim>\<open>__type\<close>, \<^verbatim>\<open>iso\<close>, ...),
  none of which a string, a number, a boolean or an array has: only an object gives a
  value. The read raises a \<^verbatim>\<open>TypeError\<close> on \<^verbatim>\<open>null\<close> and \<^verbatim>\<open>undefined\<close>; \<open>getProp\<close>
  is the read where the code has made sure of the value before.
\<close>

fun getProp :: "json \<Rightarrow> string \<Rightarrow> json" where
  "getProp (JObj kvs) k = (case map_of kvs k of None \<Rightarrow> JUndefined | Some v \<Rightarrow> v)"
| "getProp _ k = JUndefined"

definition propE :: "json \<Rightarrow> string \<Rightarrow> error + json" where
  "propE v k = (if nullish v then Inl TypeError else Inr (getProp v k))"

text \<open>\<^verbatim>\<open>v.key = x\<close> on an object: the key keeps its place, a new key goes last.\<close>

fun setProp :: "json \<Rightarrow> string \<Rightarrow> json \<Rightarrow> json" where
  "setProp (JObj kvs) k x = JObj (AList.update k x kvs)"
| "setProp v k x = v"

text \<open>Decimal numerals, as \<^verbatim>\<open>String(n)\<close> and a template literal write an integer.\<close>

definition digitChar :: "nat \<Rightarrow> char" where
  "digitChar d = char_of (48 + d)"

function showNat :: "nat \<Rightarrow> string" where
  "showNat n = (if n < 10 then [digitChar n] else showNat (n div 10) @ [digitChar (n mod 10)])"
  by pat_completeness auto
termination
  by (relation "measure id") auto

declare showNat.simps [simp del]

definition showInt :: "int \<Rightarrow> string" where
  "showInt i = (if i < 0 then CHR ''-'' # showNat (nat (- i)) else showNat (nat i))"

text \<open>
  The keys of an object that are array indices: the decimal numerals, without leading
  zeros, of the numbers below \<open>2\<^sup>3\<^sup>2 - 1\<close>. \<open>ownProps\<close> gives the properties of an object in
  the order \<^verbatim>\<open>for ... in\<close>, \<^verbatim>\<open>Object.keys\<close> and \<^verbatim>\<open>JSON.stringify\<close> visit them: the array
  indices in ascending order, then the other keys in insertion order. \<open>visitOrder\<close> gives
  the positions, in the association list, of the properties in that order, and
  \<open>putProps\<close> puts the properties, given in that order, back at their positions.
\<close>

definition isDigit :: "char \<Rightarrow> bool" where
  "isDigit c = (48 \<le> (of_char c :: nat) \<and> (of_char c :: nat) \<le> 57)"

definition readNat :: "string \<Rightarrow> nat" where
  "readNat s = foldl (\<lambda>a c. 10 * a + (of_char c - 48)) 0 s"

definition isIndexKey :: "string \<Rightarrow> bool" where
  "isIndexKey k = (k = showNat (readNat k) \<and> readNat k < 4294967295)"

definition visitOrder :: "string list \<Rightarrow> nat list" where
  "visitOrder ks =
     sort_key (\<lambda>i. readNat (ks ! i)) (filter (\<lambda>i. isIndexKey (ks ! i)) [0..<length ks])
       @ filter (\<lambda>i. \<not> isIndexKey (ks ! i)) [0..<length ks]"

definition ownProps :: "(string \<times> 'a) list \<Rightarrow> (string \<times> 'a) list" where
  "ownProps kvs = map (\<lambda>i. kvs ! i) (visitOrder (map fst kvs))"

definition putProps :: "(string \<times> 'a) list \<Rightarrow> (string \<times> 'a) list \<Rightarrow> (string \<times> 'a) list" where
  "putProps kvs kvs' =
     fold (\<lambda>(i, kv) xs. xs[i := kv]) (zip (visitOrder (map fst kvs)) kvs') kvs"

text \<open>\<^verbatim>\<open>xs.join(sep)\<close> on a list of strings.\<close>

fun join :: "string \<Rightarrow> string list \<Rightarrow> string" where
  "join sep [] = []"
| "join sep [x] = x"
| "join sep (x # y # ys) = x @ sep @ join sep (y # ys)"

text \<open>A step that can raise, followed by another; \<^verbatim>\<open>xs.map(f)\<close> for an \<open>f\<close> that can raise.\<close>

definition bindE :: "error + 'a \<Rightarrow> ('a \<Rightarrow> error + 'b) \<Rightarrow> error + 'b" where
  "bindE r f = (case r of Inl e \<Rightarrow> Inl e | Inr x \<Rightarrow> f x)"

fun mapE :: "('a \<Rightarrow> error + 'b) \<Rightarrow> 'a list \<Rightarrow> error + 'b list" where
  "mapE f [] = Inr []"
| "mapE f (x # xs) = bindE (f x) (\<lambda>y. bindE (mapE f xs) (\<lambda>ys. Inr (y # ys)))"

lemma mapE_cong [fundef_cong]:
  "xs = ys \<Longrightarrow> (\<And>x. x \<in> set ys \<Longrightarrow> f x = g x) \<Longrightarrow> mapE f xs = mapE g ys"
  by (induction ys arbitrary: xs) auto

text \<open>
  What the compilers call in the Parse SDK and in the runtime, taken as parameters:
  \<open>encodeDate v\<close> is \<^verbatim>\<open>Parse._encode(new Date(v)).iso\<close>, or the error the SDK raises for a
  date it cannot encode; \<open>geoValidate lat lng\<close> is the error
  \<^verbatim>\<open>Parse.GeoPoint._validate(lat, lng)\<close> raises, if any; \<open>distanceInKM d\<close> is the
  floating-point product \<^verbatim>\<open>d * 6371 * 1000\<close>; and \<open>numberText n\<close> is the text the runtime
  writes for a number \<open>n\<close> of absolute value \<open>2\<^sup>5\<^sup>3\<close> or more, which is the shortest
  numeral that reads back as the same double (the language leaves its last digit open),
  with zeros after it below \<open>10\<^sup>2\<^sup>1\<close> and in exponent form from there on.
\<close>

record sdk =
  encodeDate :: "json \<Rightarrow> error + string"
  geoValidate :: "json \<Rightarrow> json \<Rightarrow> error option"
  distanceInKM :: "json \<Rightarrow> json"
  numberText :: "int \<Rightarrow> string"

text \<open>
  The text of a number: an integer of absolute value below \<open>2\<^sup>5\<^sup>3\<close> is written in
  decimal with all its digits.
\<close>

definition numText :: "sdk \<Rightarrow> int \<Rightarrow> string" where
  "numText lib n = (if \<bar>n\<bar> < 9007199254740992 then showInt n else numberText lib n)"

text \<open>
  \<^verbatim>\<open>String(v)\<close>, which a template literal \<^verbatim>\<open>${v}\<close> applies. An array is its elements
  joined by commas, with \<^verbatim>\<open>null\<close> and \<^verbatim>\<open>undefined\<close> elements empty. An object is
  \<^verbatim>\<open>[object Object]\<close>, by the method \<^verbatim>\<open>toString\<close> it inherits; an object with a key
  \<^verbatim>\<open>toString\<close> of its own has no method to call there (no value of a document is a
  function, and the inherited \<^verbatim>\<open>valueOf\<close> gives the object back), and the conversion
  raises a \<^verbatim>\<open>TypeError\<close>.
\<close>

fun toStr :: "sdk \<Rightarrow> json \<Rightarrow> error + string" where
  "toStr lib JUndefined = Inr ''undefined''"
| "toStr lib JNull = Inr ''null''"
| "toStr lib (JBool b) = Inr (if b then ''true'' else ''false'')"
| "toStr lib (JNum n) = Inr (numText lib n)"
| "toStr lib (JStr s) = Inr s"
| "toStr lib (JArr xs) =
     bindE (mapE (\<lambda>x. if nullish x then Inr [] else toStr lib x) xs) (\<lambda>ts. Inr (join '','' ts))"
| "toStr lib (JObj kvs) =
     (if ''toString'' \<in> fst ` set kvs then Inl TypeError else Inr ''[object Object]'')"

text \<open>The size of a document, a string counting its characters.\<close>

fun jsize :: "json \<Rightarrow> nat" where
  "jsize (JStr s) = length s"
| "jsize (JArr xs) = Suc (sum_list (map (\<lambda>x. jsize x + 2) xs))"
| "jsize (JObj kvs) = Suc (sum_list (map (\<lambda>p. jsize (snd p) + 2) kvs))"
| "jsize _ = 0"

lemma sum_list_member_le:
  fixes f :: "'a \<Rightarrow> nat"
  shows "x \<in> set xs \<Longrightarrow> f x \<le> sum_list (map f xs)"
  by (induction xs) auto

lemma jsize_element: "x \<in> set xs \<Longrightarrow> jsize x < jsize (JArr xs)"
  using sum_list_member_le [of x xs "\<lambda>x. jsize x + 2"] by simp

lemma jsize_member: "(k, v) \<in> set kvs \<Longrightarrow> jsize v < jsize (JObj kvs)"
  using sum_list_member_le [of "(k, v)" kvs "\<lambda>p. jsize (snd p) + 2"] by simp

lemma visitOrder_set: "set (visitOrder ks) = {0..<length ks}"
  by (auto simp: visitOrder_def)

lemma ownProps_set: "set (ownProps kvs) = set kvs"
proof -
  have "set (ownProps kvs) = (\<lambda>i. kvs ! i) ` {0..<length kvs}"
    by (simp add: ownProps_def visitOrder_set)
  also have "\<dots> = set kvs"
    by (auto simp: set_conv_nth)
  finally show ?thesis .
qed

lemma sum_list_insort_key:
  fixes g :: "'a \<Rightarrow> nat"
  shows "sum_list (map g (insort_key f x xs)) = g x + sum_list (map g xs)"
  by (induction xs) auto

lemma sum_list_sort_key:
  fixes g :: "'a \<Rightarrow> nat"
  shows "sum_list (map g (sort_key f xs)) = sum_list (map g xs)"
  by (induction xs) (simp_all add: sum_list_insort_key)

lemma sum_list_partition:
  fixes g :: "'a \<Rightarrow> nat"
  shows "sum_list (map g (filter P xs)) + sum_list (map g (filter (\<lambda>x. \<not> P x) xs))
    = sum_list (map g xs)"
  by (induction xs) auto

lemma sum_list_ownProps:
  fixes g :: "string \<times> 'a \<Rightarrow> nat"
  shows "sum_list (map g (ownProps kvs)) = sum_list (map g kvs)"
proof -
  let ?h = "\<lambda>i. g (kvs ! i)"
  have "sum_list (map g (ownProps kvs)) = sum_list (map ?h (visitOrder (map fst kvs)))"
    by (simp add: ownProps_def comp_def)
  also have "\<dots> = sum_list (map ?h [0..<length kvs])"
    using sum_list_partition [of ?h "\<lambda>i. isIndexKey (map fst kvs ! i)" "[0..<length kvs]"]
    by (simp add: visitOrder_def sum_list_sort_key)
  also have "\<dots> = sum_list (map g (map (\<lambda>i. kvs ! i) [0..<length kvs]))"
    by (simp add: comp_def)
  also have "\<dots> = sum_list (map g kvs)"
    by (simp only: map_nth)
  finally show ?thesis .
qed

lemma isDigit_digitChar: "d < 10 \<Longrightarrow> isDigit (digitChar d)"
  by (simp add: isDigit_def digitChar_def)

lemma digitVal_digitChar: "d < 10 \<Longrightarrow> (of_char (digitChar d) :: nat) - 48 = d"
  by (simp add: digitChar_def)

lemma showNat_digits: "\<forall>c \<in> set (showNat n). isDigit c"
  by (induction n rule: showNat.induct) (subst showNat.simps, simp add: isDigit_digitChar)

lemma showNat_not_Nil: "showNat n \<noteq> []"
  by (subst showNat.simps) simp

lemma readNat_snoc: "readNat (s @ [c]) = 10 * readNat s + (of_char c - 48)"
  by (simp add: readNat_def)

lemma readNat_showNat: "readNat (showNat n) = n"
proof (induction n rule: showNat.induct)
  case (1 n)
  show ?case
  proof (cases "n < 10")
    case True
    then show ?thesis by (subst showNat.simps) (simp add: readNat_def digitVal_digitChar)
  next
    case False
    with 1 have "readNat (showNat (n div 10)) = n div 10" by simp
    with False show ?thesis
      by (subst showNat.simps) (simp add: readNat_snoc digitVal_digitChar)
  qed
qed

lemma isIndexKey_digits: "isIndexKey k \<Longrightarrow> k \<noteq> [] \<and> (\<forall>c \<in> set k. isDigit c)"
  unfolding isIndexKey_def using showNat_digits [of "readNat k"] showNat_not_Nil [of "readNat k"]
  by metis

lemma visitOrder_single: "visitOrder [k] = [0]"
  by (simp add: visitOrder_def)

lemma ownProps_single: "ownProps [(k, v)] = [(k, v)]"
  by (simp add: ownProps_def visitOrder_single)

lemma putProps_single: "putProps [(k, v)] [(k', v')] = [(k', v')]"
  by (simp add: putProps_def visitOrder_single)

lemma fold_update_same:
  "fold (\<lambda>(i, kv) xs. xs[i := kv]) (zip ns (map (\<lambda>i. kvs ! i) ns)) kvs = kvs"
  by (induction ns) simp_all

lemma putProps_ownProps: "putProps kvs (ownProps kvs) = kvs"
  by (simp add: putProps_def ownProps_def fold_update_same)

text \<open>
  \<^verbatim>\<open>JSON.stringify\<close>. In a string, the quote, the backslash and the control characters
  are escaped; in an array \<^verbatim>\<open>undefined\<close> is written \<^verbatim>\<open>null\<close>, in an object a key with
  the value \<^verbatim>\<open>undefined\<close> is left out; \<^verbatim>\<open>JSON.stringify(undefined)\<close> is \<^verbatim>\<open>undefined\<close>, and
  \<open>stringifyTemplate\<close> is the template literal \<^verbatim>\<open>${JSON.stringify(v)}\<close>.
\<close>

definition hexDigit :: "nat \<Rightarrow> char" where
  "hexDigit d = (if d < 10 then char_of (48 + d) else char_of (87 + d))"

definition escapeChar :: "char \<Rightarrow> string" where
  "escapeChar c =
     (if c = dquote then [bslash, dquote]
      else if c = bslash then [bslash, bslash]
      else if c = CHR 0x08 then [bslash, CHR ''b'']
      else if c = CHR 0x0C then [bslash, CHR ''f'']
      else if c = CHR 0x0A then [bslash, CHR ''n'']
      else if c = CHR 0x0D then [bslash, CHR ''r'']
      else if c = CHR 0x09 then [bslash, CHR ''t'']
      else if (of_char c :: nat) < 32
        then [bslash, CHR ''u'', CHR ''0'', CHR ''0'',
              hexDigit (of_char c div 16), hexDigit (of_char c mod 16)]
      else [c])"

definition quoteJSON :: "string \<Rightarrow> string" where
  "quoteJSON s = dquote # concat (map escapeChar s) @ [dquote]"

function stringifyText :: "sdk \<Rightarrow> json \<Rightarrow> string" where
  "stringifyText lib JUndefined = ''null''"
| "stringifyText lib JNull = ''null''"
| "stringifyText lib (JBool b) = (if b then ''true'' else ''false'')"
| "stringifyText lib (JNum n) = numText lib n"
| "stringifyText lib (JStr s) = quoteJSON s"
| "stringifyText lib (JArr xs) = ''['' @ join '','' (map (stringifyText lib) xs) @ '']''"
| "stringifyText lib (JObj kvs) =
     ''{'' @ join '','' (map (\<lambda>(k, v). quoteJSON k @ '':'' @ stringifyText lib v)
                           (filter (\<lambda>(k, v). v \<noteq> JUndefined) (ownProps kvs))) @ ''}''"
  by pat_completeness auto
termination
proof (relation "measure (\<lambda>(lib, v). jsize v)")
  fix lib kvs x k v
  assume "x \<in> set (filter (\<lambda>(k, v). v \<noteq> JUndefined) (ownProps kvs))" "(k, v) = x"
  then have "(k, v) \<in> set kvs" by (simp add: ownProps_set)
  then show "((lib, v), (lib, JObj kvs)) \<in> measure (\<lambda>(lib, v). jsize v)"
    using jsize_member [of k v kvs] by simp
qed (use jsize_element in auto)

definition JSON_stringify :: "sdk \<Rightarrow> json \<Rightarrow> json" where
  "JSON_stringify lib v = (if v = JUndefined then JUndefined else JStr (stringifyText lib v))"

definition stringifyTemplate :: "sdk \<Rightarrow> json \<Rightarrow> string" where
  "stringifyTemplate lib v = (if v = JUndefined then ''undefined'' else stringifyText lib v)"

text \<open>
  The properties \<^verbatim>\<open>for (const k in v)\<close> visits, with their values: the properties of an
  object, the indices of an array or of a string, and nothing for any other value.
\<close>

fun entries :: "json \<Rightarrow> (string \<times> json) list" where
  "entries (JObj kvs) = ownProps kvs"
| "entries (JArr xs) = zip (map showNat [0..<length xs]) xs"
| "entries (JStr s) = zip (map showNat [0..<length s]) (map (\<lambda>c. JStr [c]) s)"
| "entries _ = []"

text \<open>
  The value after the loop has replaced the values of its properties, which it is given
  in the order of the loop.
\<close>

fun withEntries :: "json \<Rightarrow> (string \<times> json) list \<Rightarrow> json" where
  "withEntries (JObj kvs) kvs' = JObj (putProps kvs kvs')"
| "withEntries (JArr xs) kvs' = JArr (map snd kvs')"
| "withEntries v kvs' = v"

text \<open>\<^verbatim>\<open>v[n]\<close> for an index \<open>n\<close>.\<close>

fun elemAt :: "json \<Rightarrow> nat \<Rightarrow> json" where
  "elemAt (JArr xs) n = (if n < length xs then xs ! n else JUndefined)"
| "elemAt (JStr s) n = (if n < length s then JStr [s ! n] else JUndefined)"
| "elemAt (JObj kvs) n = (case map_of kvs (showNat n) of None \<Rightarrow> JUndefined | Some v \<Rightarrow> v)"
| "elemAt _ n = JUndefined"

text \<open>
  \<^verbatim>\<open>a !== b\<close> for two values read from different places of a document: two objects
  (or arrays) are then never the same object.
\<close>

definition strictNe :: "json \<Rightarrow> json \<Rightarrow> bool" where
  "strictNe a b = (a \<noteq> b \<or> (typeof a = TObject \<and> a \<noteq> JNull))"

text \<open>
  lodash's \<^verbatim>\<open>_.flatMap(v, elt => elt)\<close>: the elements of an array, the values of an
  object or the characters of a string, with every element that is an array replaced by
  its elements.
\<close>

fun collectionValues :: "json \<Rightarrow> json list" where
  "collectionValues (JArr xs) = xs"
| "collectionValues (JObj kvs) = map snd (ownProps kvs)"
| "collectionValues (JStr s) = map (\<lambda>c. JStr [c]) s"
| "collectionValues _ = []"

definition flatMapId :: "json \<Rightarrow> json list" where
  "flatMapId v = concat (map (\<lambda>x. case x of JArr ys \<Rightarrow> ys | _ \<Rightarrow> [x]) (collectionValues v))"

text \<open>\<^verbatim>\<open>s.split(sep)\<close> for a one-character separator, and \<^verbatim>\<open>s.replace(c, t)\<close> for a one-character pattern (the first occurrence).\<close>

fun splitOn :: "char \<Rightarrow> string \<Rightarrow> string list" where
  "splitOn sep [] = [[]]"
| "splitOn sep (c # s) =
     (if c = sep then [] # splitOn sep s
      else (case splitOn sep s of [] \<Rightarrow> [[c]] | w # ws \<Rightarrow> (c # w) # ws))"

fun replaceChar :: "char \<Rightarrow> string \<Rightarrow> string \<Rightarrow> string" where
  "replaceChar c t [] = []"
| "replaceChar c t (x # s) = (if x = c then t @ s else x # replaceChar c t s)"

section \<open>Schema view transformer\<close>

text \<open>
  A schema object \<^verbatim>\<open>{className, fields, classLevelPermissions}\<close>. \<open>fields\<close> and
  \<open>classLevelPermissions\<close> may be missing (\<open>None\<close>); a field descriptor and a permission
  map are JSON values.
\<close>

record schema =
  className :: string
  schemaFields :: "(string \<times> json) list option"
  classLevelPermissions :: "(string \<times> json) list option"

definition emptyCLPS :: "(string \<times> json) list" where
  "emptyCLPS =
     [(''find'', JObj []), (''get'', JObj []), (''create'', JObj []),
      (''update'', JObj []), (''delete'', JObj []), (''addField'', JObj [])]"

definition defaultCLPS :: "(string \<times> json) list" where
  "defaultCLPS =
     [(''find'', JObj [(''*'', JBool True)]), (''get'', JObj [(''*'', JBool True)]),
      (''create'', JObj [(''*'', JBool True)]), (''update'', JObj [(''*'', JBool True)]),
      (''delete'', JObj [(''*'', JBool True)]), (''addField'', JObj [(''*'', JBool True)])]"

text \<open>
  The object spread \<^verbatim>\<open>{...a, ...b}\<close>: the keys of \<open>a\<close> in their order, each with the value
  \<open>b\<close> gives it when \<open>b\<close> has the key, followed by the keys only \<open>b\<close> has.
\<close>

definition spread :: "(string \<times> json) list \<Rightarrow> (string \<times> json) list \<Rightarrow> (string \<times> json) list" where
  "spread a b = fold (\<lambda>(k, v). AList.update k v) b a"

text \<open>
  \<^verbatim>\<open>toParseSchema\<close>. \<^verbatim>\<open>delete schema.fields._hashed_password\<close> is not guarded by
  \<^verbatim>\<open>if (schema.fields)\<close>, so it raises a \<^verbatim>\<open>TypeError\<close> on a \<^verbatim>\<open>_User\<close> schema without
  a field map. (The deletions also change the caller's field map in place; the model
  gives the returned object.)
\<close>

definition toParseSchema :: "schema \<Rightarrow> error + schema" where
  "toParseSchema s =
     (if className s = ''_User'' \<and> schemaFields s = None then Inl TypeError
      else
        let fs1 = (if className s = ''_User''
                   then map_option (AList.delete ''_hashed_password'') (schemaFields s)
                   else schemaFields s);
            fs2 = map_option (\<lambda>fs. AList.delete ''_rperm'' (AList.delete ''_wperm'' fs)) fs1;
            clps = (case classLevelPermissions s of
                      None \<Rightarrow> defaultCLPS
                    | Some c \<Rightarrow> spread emptyCLPS c)
        in Inr \<lparr>className = className s, schemaFields = fs2, classLevelPermissions = Some clps\<rparr>)"

text \<open>The six actions of a class-level permission map.\<close>

definition clpActions :: "string list" where
  "clpActions = [''find'', ''get'', ''create'', ''update'', ''delete'', ''addField'']"

text \<open>The permission map a schema object gives an action.\<close>

definition clpOf :: "schema \<Rightarrow> string \<Rightarrow> json option" where
  "clpOf s a = (case classLevelPermissions s of None \<Rightarrow> None | Some c \<Rightarrow> map_of c a)"

text \<open>The names of the fields of a schema object (none when it has no field map).\<close>

definition fieldNames :: "schema \<Rightarrow> string set" where
  "fieldNames s = (case schemaFields s of None \<Rightarrow> {} | Some fs \<Rightarrow> fst ` set fs)"

section \<open>Reads, counts and deletes against a missing table\<close>

definition PostgresRelationDoesNotExistError :: string where
  "PostgresRelationDoesNotExistError = ''42P01''"

definition MySQLRelationDoesNotExistError :: string where
  "MySQLRelationDoesNotExistError = ''ER_NO_SUCH_TABLE''"

text \<open>How a promise settles.\<close>

datatype 'a promise = Resolved 'a | Rejected error

text \<open>
  The promise chains of \<^verbatim>\<open>find\<close>, \<^verbatim>\<open>count\<close> and \<^verbatim>\<open>deleteObjectsByQuery\<close> after the
  statement is compiled, as functions of how
  \<^verbatim>\<open>this.connect().then(() => this.database.query(qs, values))\<close> settles: rejected with an
  error, or resolved with \<^verbatim>\<open>[rows, ...]\<close>, of which the chains read the first component.
  A row is an object. \<open>errCode\<close> is \<^verbatim>\<open>err.code\<close>.
\<close>

fun errCode :: "error \<Rightarrow> string option" where
  "errCode (DriverError c) = Some c"
| "errCode _ = None"

text \<open>
  \<^verbatim>\<open>find\<close>: the \<^verbatim>\<open>catch\<close> handler turns the MySQL code into \<^verbatim>\<open>[[]]\<close>, and the
  \<^verbatim>\<open>then\<close> after it maps the rows with the row decoder (the body of \<^verbatim>\<open>results.map\<close>,
  a parameter here).
\<close>

definition find_catch :: "error \<Rightarrow> error + (string \<times> json) list list" where
  "find_catch err =
     (if errCode err = Some MySQLRelationDoesNotExistError then Inr [] else Inl err)"

definition find_chain ::
  "((string \<times> json) list \<Rightarrow> 'r) \<Rightarrow> error + (string \<times> json) list list \<Rightarrow> 'r list promise" where
  "find_chain decodeRow q =
     (case (case q of Inl err \<Rightarrow> find_catch err | Inr rows \<Rightarrow> Inr rows) of
        Inl err \<Rightarrow> Rejected err
      | Inr rows \<Rightarrow> Resolved (map decodeRow rows))"

text \<open>
  \<^verbatim>\<open>count\<close>: \<^verbatim>\<open>result[0]['count(*)']\<close>, then a \<^verbatim>\<open>catch\<close> handler that compares the
  error's code with the Postgres constant. Reading \<^verbatim>\<open>result[0]\<close> of an empty result
  raises a \<^verbatim>\<open>TypeError\<close>, which the same handler rethrows.
\<close>

definition count_then :: "(string \<times> json) list list \<Rightarrow> error + json" where
  "count_then rows =
     (case rows of
        [] \<Rightarrow> Inl TypeError
      | r # _ \<Rightarrow> Inr (case map_of r ''count(*)'' of None \<Rightarrow> JUndefined | Some v \<Rightarrow> v))"

definition count_catch :: "error \<Rightarrow> error + json" where
  "count_catch err =
     (if errCode err = Some PostgresRelationDoesNotExistError then Inr (JNum 0) else Inl err)"

definition count_chain :: "error + (string \<times> json) list list \<Rightarrow> json promise" where
  "count_chain q =
     (case (case q of Inl err \<Rightarrow> Inl err | Inr rows \<Rightarrow> count_then rows) of
        Inl err \<Rightarrow> (case count_catch err of Inl e \<Rightarrow> Rejected e | Inr v \<Rightarrow> Resolved v)
      | Inr v \<Rightarrow> Resolved v)"

text \<open>
  \<^verbatim>\<open>deleteObjectsByQuery\<close>: no \<^verbatim>\<open>catch\<close>; the driver resolves with a result object
  whose \<^verbatim>\<open>affectedRows\<close> is read.
\<close>

definition delete_chain :: "error + nat \<Rightarrow> nat promise" where
  "delete_chain q =
     (case q of
        Inl err \<Rightarrow> Rejected err
      | Inr affectedRows \<Rightarrow>
          (if affectedRows = 0 then Rejected (ParseError OBJECT_NOT_FOUND ''Object not found.'')
           else Resolved affectedRows))"

section \<open>Regex literalizer\<close>

text \<open>
  The regular expressions of the source are matched by hand. A dot matches every
  character but a line terminator, \<^verbatim>\<open>\s\<close> the white space characters, a negated class
  every character it does not list.
\<close>

definition lineTerminator :: "char \<Rightarrow> bool" where
  "lineTerminator c = (c = CHR 0x0A \<or> c = CHR 0x0D)"

definition isSpace :: "char \<Rightarrow> bool" where
  "isSpace c = (c \<in> {CHR 0x09, CHR 0x0A, CHR 0x0B, CHR 0x0C, CHR 0x0D, CHR 0x20, CHR 0xA0})"

definition isAlnum :: "char \<Rightarrow> bool" where
  "isAlnum c =
     (let n = of_char c :: nat
      in (48 \<le> n \<and> n \<le> 57) \<or> (65 \<le> n \<and> n \<le> 90) \<or> (97 \<le> n \<and> n \<le> 122))"

text \<open>
  The leftmost match of a pattern: \<open>m t\<close> is the match of the pattern at the start of
  \<open>t\<close>, and the search tries every suffix, the empty one last.
\<close>

fun regexSearch :: "(string \<Rightarrow> 'a option) \<Rightarrow> string \<Rightarrow> (nat \<times> 'a) option" where
  "regexSearch m [] = map_option (Pair 0) (m [])"
| "regexSearch m (c # s) =
     (case m (c # s) of
        Some r \<Rightarrow> Some (0, r)
      | None \<Rightarrow> map_option (\<lambda>(i, r). (Suc i, r)) (regexSearch m s))"

text \<open>
  \<^verbatim>\<open>/\\Q((?!\\E).*)\\E$/\<close> at the start of \<open>t\<close>: the marker \<^verbatim>\<open>\Q\<close>, not followed by
  \<^verbatim>\<open>\E\<close>, then the rest of the input up to a final \<^verbatim>\<open>\E\<close>, none of it a line
  terminator. The result is the captured group.
\<close>

definition matcher1 :: "string \<Rightarrow> string option" where
  "matcher1 t =
     (if take 2 t = [bslash, CHR ''Q''] then
        (let u = drop 2 t; n = length u - 2
         in if take 2 u \<noteq> [bslash, CHR ''E''] \<and> 2 \<le> length u
               \<and> drop n u = [bslash, CHR ''E'']
               \<and> list_all (\<lambda>c. \<not> lineTerminator c) (take n u)
            then Some (take n u) else None)
      else None)"

text \<open>\<^verbatim>\<open>/\\Q((?!\\E).*)$/\<close> at the start of \<open>t\<close>.\<close>

definition matcher2 :: "string \<Rightarrow> string option" where
  "matcher2 t =
     (if take 2 t = [bslash, CHR ''Q''] then
        (let u = drop 2 t
         in if take 2 u \<noteq> [bslash, CHR ''E''] \<and> list_all (\<lambda>c. \<not> lineTerminator c) u
            then Some u else None)
      else None)"

definition createLiteralRegex :: "string \<Rightarrow> string" where
  "createLiteralRegex remaining =
     concat (map (\<lambda>c. if isAlnum c then [c]
                       else if c = squote then [squote, squote] else [bslash, c]) remaining)"

text \<open>
  The replacements of the last branch of \<^verbatim>\<open>literalizeRegexPart\<close>, each of the first
  match only: \<^verbatim>\<open>s.replace(/([^\\])(\\E)/, '$1')\<close> (and the same for \<^verbatim>\<open>\Q\<close>),
  \<^verbatim>\<open>s.replace(/^\\E/, '')\<close>, \<^verbatim>\<open>s.replace(/([^'])'/, `$1''`)\<close>,
  \<^verbatim>\<open>s.replace(/^'([^'])/, `''$1`)\<close> and \<^verbatim>\<open>s.replace('\\w', '[0-9a-zA-Z]')\<close>.
\<close>

fun removeMarkerInside :: "string \<Rightarrow> string \<Rightarrow> string" where
  "removeMarkerInside mk [] = []"
| "removeMarkerInside mk (c # s) =
     (if c \<noteq> bslash \<and> take 2 s = mk then c # drop 2 s else c # removeMarkerInside mk s)"

definition removeMarkerAtStart :: "string \<Rightarrow> string \<Rightarrow> string" where
  "removeMarkerAtStart mk s = (if take 2 s = mk then drop 2 s else s)"

fun doubleQuoteInside :: "string \<Rightarrow> string" where
  "doubleQuoteInside (c # q # s) =
     (if c \<noteq> squote \<and> q = squote then c # squote # squote # s
      else c # doubleQuoteInside (q # s))"
| "doubleQuoteInside s = s"

fun doubleQuoteAtStart :: "string \<Rightarrow> string" where
  "doubleQuoteAtStart (q # c # s) =
     (if q = squote \<and> c \<noteq> squote then squote # squote # c # s else q # c # s)"
| "doubleQuoteAtStart s = s"

fun replaceWordClass :: "string \<Rightarrow> string" where
  "replaceWordClass [] = []"
| "replaceWordClass (c # s) =
     (if c = bslash \<and> take 1 s = ''w'' then ''[0-9a-zA-Z]'' @ drop 1 s
      else c # replaceWordClass s)"

definition stripMarkers :: "string \<Rightarrow> string" where
  "stripMarkers s =
     replaceWordClass (doubleQuoteAtStart (doubleQuoteInside
       (removeMarkerAtStart [bslash, CHR ''Q''] (removeMarkerAtStart [bslash, CHR ''E'']
         (removeMarkerInside [bslash, CHR ''Q''] (removeMarkerInside [bslash, CHR ''E''] s))))))"

lemma regexSearch_less:
  "regexSearch m s = Some (i, r) \<Longrightarrow> m [] = None \<Longrightarrow> i < length s"
  by (induction s arbitrary: i) (auto split: option.splits)

lemma matcher1_Nil: "matcher1 [] = None"
  by (simp add: matcher1_def)

lemma matcher2_Nil: "matcher2 [] = None"
  by (simp add: matcher2_def)

function (domintros) literalizeRegexPart :: "string \<Rightarrow> string" where
  "literalizeRegexPart s =
     (case regexSearch matcher1 s of
        Some (i, remaining) \<Rightarrow> literalizeRegexPart (take i s) @ createLiteralRegex remaining
      | None \<Rightarrow>
          (case regexSearch matcher2 s of
             Some (i, remaining) \<Rightarrow> literalizeRegexPart (take i s) @ createLiteralRegex remaining
           | None \<Rightarrow> stripMarkers s))"
  by pat_completeness auto

text \<open>Every pattern is in the domain of the recursion: a recursive call is on a shorter prefix.\<close>

lemma literalizeRegexPart_total: "literalizeRegexPart_dom s"
proof (induction s rule: measure_induct_rule [of length])
  case (less s)
  show ?case
    by (rule literalizeRegexPart.domintros)
       (auto intro!: less dest: regexSearch_less simp: matcher1_Nil matcher2_Nil)
qed

termination literalizeRegexPart
  using literalizeRegexPart_total by blast

declare literalizeRegexPart.simps [simp del]

text \<open>\<^verbatim>\<open>processRegexPattern\<close> on a string.\<close>

definition processRegexPattern :: "string \<Rightarrow> string" where
  "processRegexPattern s =
     (if s \<noteq> [] \<and> hd s = CHR ''^'' then CHR ''^'' # literalizeRegexPart (tl s)
      else if s \<noteq> [] \<and> last s = CHR ''$'' then literalizeRegexPart (butlast s) @ ''$''
      else literalizeRegexPart s)"

text \<open>
  \<^verbatim>\<open>removeWhiteSpace\<close>: a final newline is added if there is none, then
  \<^verbatim>\<open>/([^\\])#.*\n/g\<close> keeps the character before a comment,
  \<^verbatim>\<open>/^#.*\n/gm\<close> removes the lines that start with a comment, \<^verbatim>\<open>/([^\\])\s+/g\<close> keeps the
  character before a run of white space, \<^verbatim>\<open>/^\s+/\<close> removes white space at the start,
  and \<^verbatim>\<open>trim()\<close> at both ends.
\<close>

definition commentEnd :: "string \<Rightarrow> string option" where
  "commentEnd s =
     (case dropWhile (\<lambda>c. \<not> lineTerminator c) s of
        [] \<Rightarrow> None
      | c # r \<Rightarrow> if c = CHR 0x0A then Some r else None)"

lemma commentEnd_length: "commentEnd s = Some r \<Longrightarrow> length r < length s"
proof -
  assume a: "commentEnd s = Some r"
  then obtain c where "dropWhile (\<lambda>c. \<not> lineTerminator c) s = c # r"
    by (auto simp: commentEnd_def split: list.splits if_splits)
  then have "Suc (length r) = length (dropWhile (\<lambda>c. \<not> lineTerminator c) s)" by simp
  also have "\<dots> \<le> length s" by (rule length_dropWhile_le)
  finally show ?thesis by simp
qed

function removeComments :: "string \<Rightarrow> string" where
  "removeComments [] = []"
| "removeComments [c] = [c]"
| "removeComments (c # d # s) =
     (if c \<noteq> bslash \<and> d = CHR ''#'' then
        (case commentEnd s of
           Some r \<Rightarrow> c # removeComments r
         | None \<Rightarrow> c # removeComments (d # s))
      else c # removeComments (d # s))"
  by pat_completeness auto
termination
  by (relation "measure length") (auto dest: commentEnd_length)

function removeCommentLines :: "bool \<Rightarrow> string \<Rightarrow> string" where
  "removeCommentLines atLineStart [] = []"
| "removeCommentLines atLineStart (c # s) =
     (if atLineStart \<and> c = CHR ''#'' then
        (case commentEnd s of
           Some r \<Rightarrow> removeCommentLines True r
         | None \<Rightarrow> c # removeCommentLines (lineTerminator c) s)
      else c # removeCommentLines (lineTerminator c) s)"
  by pat_completeness auto
termination
  by (relation "measure (\<lambda>(b, s). length s)") (auto dest: commentEnd_length)

function removeSpaces :: "string \<Rightarrow> string" where
  "removeSpaces [] = []"
| "removeSpaces (c # s) =
     (if c \<noteq> bslash \<and> s \<noteq> [] \<and> isSpace (hd s) then c # removeSpaces (dropWhile isSpace s)
      else c # removeSpaces s)"
  by pat_completeness auto
termination
  by (relation "measure length") (auto intro: le_imp_less_Suc length_dropWhile_le)

definition trim :: "string \<Rightarrow> string" where
  "trim s = rev (dropWhile isSpace (rev (dropWhile isSpace s)))"

definition removeWhiteSpace :: "string \<Rightarrow> string" where
  "removeWhiteSpace regex =
     (let r0 = (if regex \<noteq> [] \<and> last regex = CHR 0x0A then regex else regex @ [CHR 0x0A])
      in trim (dropWhile isSpace (removeSpaces (removeCommentLines True (removeComments r0)))))"

section \<open>Predicate compiler\<close>

subsection \<open>Schema and value helpers\<close>

text \<open>
  \<^verbatim>\<open>toMySQLSchema\<close> on a schema object (the source returns a missing schema as it is):
  it assigns the implicit fields into the field map of the object it is given and returns
  that object.
\<close>

definition toMySQLSchema :: "schema \<Rightarrow> schema" where
  "toMySQLSchema s =
     (let f0 = (case schemaFields s of None \<Rightarrow> [] | Some fs \<Rightarrow> fs);
          f1 = AList.update ''_wperm''
                 (JObj [(''type'', JStr ''Array''), (''contents'', JObj [(''type'', JStr ''String'')])]) f0;
          f2 = AList.update ''_rperm''
                 (JObj [(''type'', JStr ''Array''), (''contents'', JObj [(''type'', JStr ''String'')])]) f1;
          f3 = (if className s = ''_User''
                then AList.update ''_password_history'' (JObj [(''type'', JStr ''Array'')])
                       (AList.update ''_hashed_password'' (JObj [(''type'', JStr ''String'')]) f2)
                else f2)
      in s\<lparr>schemaFields := Some f3\<rparr>)"

text \<open>
  \<^verbatim>\<open>schema.fields[fieldName]\<close>, for a schema with a field map. For a name the map does
  not hold the read gives what the map inherits under this name, if anything: a method
  of \<^verbatim>\<open>Object.prototype\<close> or, for \<^verbatim>\<open>__proto__\<close>, the prototype itself. The compilers test
  such a value for truth and read its \<^verbatim>\<open>type\<close> and \<^verbatim>\<open>contents\<close>, which it does not have;
  the empty object stands for it.
\<close>

definition inheritedNames :: "string list" where
  "inheritedNames =
     [''constructor'', ''__defineGetter__'', ''__defineSetter__'', ''hasOwnProperty'',
      ''__lookupGetter__'', ''__lookupSetter__'', ''isPrototypeOf'', ''propertyIsEnumerable'',
      ''toString'', ''valueOf'', ''__proto__'', ''toLocaleString'']"

definition fieldDesc :: "(string \<times> json) list \<Rightarrow> string \<Rightarrow> json" where
  "fieldDesc fs fieldName =
     (case map_of fs fieldName of
        None \<Rightarrow> if fieldName \<in> set inheritedNames then JObj [] else JUndefined
      | Some d \<Rightarrow> d)"

definition formatDateToMySQL :: "sdk \<Rightarrow> json \<Rightarrow> error + json" where
  "formatDateToMySQL lib v =
     bindE (encodeDate lib v) (\<lambda>iso.
       let iso' = replaceChar CHR ''Z'' [] (replaceChar CHR ''T'' '' '' iso)
       in bindE (propE v ''iso'') (\<lambda>viso.
            if \<not> truthy viso then Inr (JStr iso')
            else Inr (JObj [(''__type'', JStr ''Date''), (''iso'', JStr iso')])))"

definition toMySQLValue :: "sdk \<Rightarrow> json \<Rightarrow> error + json" where
  "toMySQLValue lib v =
     (if typeof v = TObject then
        (if v = JNull then Inl TypeError
         else if getProp v ''__type'' = JStr ''Date'' then
           (if \<not> truthy (getProp v ''iso'') then Inr JNull
            else formatDateToMySQL lib (getProp v ''iso''))
         else if getProp v ''__type'' = JStr ''File'' then Inr (getProp v ''name'')
         else Inr v)
      else Inr v)"

definition transformValue :: "json \<Rightarrow> error + json" where
  "transformValue v =
     (if typeof v = TObject then
        (if v = JNull then Inl TypeError
         else if getProp v ''__type'' = JStr ''Pointer'' then Inr (getProp v ''objectId'')
         else Inr v)
      else Inr v)"

subsection \<open>Placeholder tokens and the state of the loop\<close>

text \<open>
  \<open>nm i\<close> is the token \<^verbatim>\<open>$${index}:name\<close>; \<open>bq\<close> and \<open>sq\<close> put a text between backticks
  and between single quotes.
\<close>

definition nm :: "nat \<Rightarrow> string" where
  "nm i = CHR ''$'' # showNat i @ '':name''"

definition bq :: "string \<Rightarrow> string" where
  "bq s = btick # s @ [btick]"

definition sq :: "string \<Rightarrow> string" where
  "sq s = squote # s @ [squote]"

text \<open>The variables of one call: the running index and the three lists.\<close>

record wstate =
  index :: nat
  patterns :: "string list"
  vals :: "json list"
  sorts :: "string list"

text \<open>What \<^verbatim>\<open>buildWhereClause\<close> returns: \<^verbatim>\<open>{pattern, values, sorts}\<close>.\<close>

record clause =
  pattern :: string
  boundValues :: "json list"
  sortExprs :: "string list"

text \<open>
  \<^verbatim>\<open>patterns.push(p); values.push(...vs); index += n\<close>, the pattern written with the
  index before the addition.
\<close>

definition emit :: "string \<Rightarrow> json list \<Rightarrow> nat \<Rightarrow> wstate \<Rightarrow> wstate" where
  "emit p vs n st =
     st\<lparr>index := index st + n, patterns := patterns st @ [p], vals := vals st @ vs\<rparr>"

text \<open>
  How the body of the loop ends for one field: it raises, it reaches \<^verbatim>\<open>continue\<close>, or
  it runs on.
\<close>

datatype 'a flow = Raise error | Continue 'a | Next 'a

subsection \<open>The branches of the loop body\<close>

text \<open>
  The name a dotted field name is rendered as: \<^verbatim>\<open>`first`->>'$.second.third'\<close>, from the
  components of \<^verbatim>\<open>fieldName.split('.')\<close>.
\<close>

fun dottedName :: "string list \<Rightarrow> string" where
  "dottedName [] = ''undefined'' @ [squote]"
| "dottedName [c0] = bq c0 @ ''->>'' @ [squote]"
| "dottedName (c0 # c1 # cs) =
     bq c0 @ ''->>'' @ [squote] @ ''$.'' @ c1 @ concat (map (\<lambda>c. CHR ''.'' # c) cs) @ [squote]"

text \<open>
  The first chain of tests, on the name and the type of the value. \<open>sub\<close> is what the
  \<^verbatim>\<open>forEach\<close> over the sub-queries of \<^verbatim>\<open>$or\<close>/\<^verbatim>\<open>$and\<close> gives (the sub-queries after
  the calls, and the clauses, their values and the index after them, or the error of a
  call); a value that is not an array has no \<^verbatim>\<open>forEach\<close>.
\<close>

definition firstChain ::
  "sdk \<Rightarrow> string \<Rightarrow> json \<Rightarrow> json list \<times> (error + string list \<times> json list \<times> nat) \<Rightarrow> wstate
     \<Rightarrow> json \<times> wstate flow" where
  "firstChain lib fieldName fieldValue sub st =
     (let i = index st in
      if CHR ''.'' \<in> set fieldName then
        (let name = dottedName (splitOn CHR ''.'' fieldName)
         in if fieldValue = JNull
            then (fieldValue, Next (st\<lparr>patterns := patterns st @ [bq name @ '' IS NULL'']\<rparr>))
            else
              (case toStr lib fieldValue of
                 Inl e \<Rightarrow> (fieldValue, Raise e)
               | Inr text \<Rightarrow>
                   (fieldValue,
                    Next (st\<lparr>patterns := patterns st @ [name @ '' = '' @ sq text]\<rparr>))))
      else if fieldValue = JNull then
        (fieldValue, Continue (emit (bq (nm i) @ '' IS NULL'') [JStr fieldName] 1 st))
      else if typeof fieldValue = TString then
        (fieldValue,
         Next (emit (bq (nm i) @ '' = '' @ sq (nm (i + 1))) [JStr fieldName, fieldValue] 2 st))
      else if typeof fieldValue = TBoolean then
        (fieldValue,
         Next (emit (bq (nm i) @ '' = '' @ nm (i + 1)) [JStr fieldName, fieldValue] 2 st))
      else if typeof fieldValue = TNumber then
        (fieldValue,
         Next (emit (bq (nm i) @ '' = '' @ nm (i + 1)) [JStr fieldName, fieldValue] 2 st))
      else if fieldName = ''$or'' \<or> fieldName = ''$and'' then
        (case fieldValue of
           JArr subs \<Rightarrow>
             (case sub of
                (subs', Inl e) \<Rightarrow> (JArr subs', Raise e)
              | (subs', Inr (clauses, clauseValues, i')) \<Rightarrow>
                  (JArr subs',
                   Next (st\<lparr>index := i',
                            patterns := patterns st @
                              [''('' @ join (if fieldName = ''$or'' then '' OR '' else '' AND '') clauses
                                 @ '')''],
                            vals := vals st @ clauseValues\<rparr>)))
         | _ \<Rightarrow> (fieldValue, Raise TypeError))
      else (fieldValue, Next st))"

text \<open>
  \<^verbatim>\<open>$ne\<close>. On an Array field the operand is replaced, in the query, by the JSON text of
  the one-element array that holds it, and that text is the value bound.
\<close>

definition stepNe :: "sdk \<Rightarrow> bool \<Rightarrow> string \<Rightarrow> json \<Rightarrow> wstate \<Rightarrow> json \<times> wstate flow" where
  "stepNe lib isArrayField fieldName fieldValue st =
     (let i = index st; ne = getProp fieldValue ''$ne'' in
      if ne = JUndefined then (fieldValue, Next st)
      else if isArrayField then
        (let fieldValue' = setProp fieldValue ''$ne'' (JSON_stringify lib (JArr [ne]))
         in (fieldValue',
             Next (emit (''JSON_CONTAINS('' @ bq (nm i) @ '', '' @ sq (nm (i + 1)) @ '') != 1'')
                     [JStr fieldName, getProp fieldValue' ''$ne''] 2 st)))
      else if ne = JNull then
        (fieldValue, Continue (emit (bq (nm i) @ '' IS NOT NULL'') [JStr fieldName] 1 st))
      else
        (fieldValue,
         Next (emit (''('' @ bq (nm i) @ '' <> '' @ sq (nm (i + 1)) @ '' OR '' @ bq (nm i)
                       @ '' IS NULL)'')
                 [JStr fieldName, ne] 2 st)))"

definition stepEq :: "string \<Rightarrow> json \<Rightarrow> wstate \<Rightarrow> wstate" where
  "stepEq fieldName fieldValue st =
     (let i = index st in
      if truthy (getProp fieldValue ''$eq'')
      then emit (bq (nm i) @ '' = '' @ sq (nm (i + 1)))
             [JStr fieldName, getProp fieldValue ''$eq''] 2 st
      else st)"

text \<open>
  \<^verbatim>\<open>$in\<close> on an Array field of strings: the \<^verbatim>\<open>forEach\<close> over the list, with the index
  of the element and the flag \<^verbatim>\<open>allowNull\<close>; it gives the patterns, the values pushed and
  the flag at the end.
\<close>

fun inStringLoop :: "nat \<Rightarrow> json list \<Rightarrow> nat \<Rightarrow> bool \<Rightarrow> string list \<times> json list \<times> bool" where
  "inStringLoop i [] listIndex allowNull = ([], [], allowNull)"
| "inStringLoop i (listElem # rest) listIndex allowNull =
     (if listElem = JNull then inStringLoop i rest (Suc listIndex) True
      else
        (case inStringLoop i rest (Suc listIndex) allowNull of
           (ps, vs, a) \<Rightarrow>
             ((''JSON_CONTAINS('' @ bq (nm i) @ '', JSON_ARRAY(''
                 @ sq (nm (i + 1 + listIndex - (if allowNull then 1 else 0))) @ '')) = 1'') # ps,
              listElem # vs, a)))"

definition inStringArray :: "string \<Rightarrow> json list \<Rightarrow> wstate \<Rightarrow> wstate" where
  "inStringArray fieldName elems st =
     (let i = index st in
      case inStringLoop i elems 0 False of
        (inPatterns, pushed, allowNull) \<Rightarrow>
          st\<lparr>index := i + 1 + length inPatterns,
             patterns := patterns st @
               [if allowNull
                then ''('' @ bq (nm i) @ '' IS NULL OR '' @ join '' OR '' inPatterns @ '')''
                else bq (nm i) @ '' && '' @ join '' OR '' inPatterns],
             vals := vals st @ JStr fieldName # pushed\<rparr>)"

text \<open>The closure \<^verbatim>\<open>createConstraint(baseArray, notIn)\<close>.\<close>

definition createConstraint :: "sdk \<Rightarrow> bool \<Rightarrow> string \<Rightarrow> json list \<Rightarrow> bool \<Rightarrow> wstate \<Rightarrow> wstate" where
  "createConstraint lib isArrayField fieldName baseArray notIn st =
     (let i = index st in
      if baseArray \<noteq> [] then
        (if isArrayField then
           st\<lparr>index := i + 1 + length baseArray,
              patterns := patterns st @
                [join '' || ''
                   (map (\<lambda>listIndex. ''JSON_CONTAINS('' @ bq (nm i) @ '', ''
                           @ sq (nm (i + 1 + listIndex)) @ '') ''
                           @ (if notIn then '' != '' else '' = '') @ '' 1'')
                      [0..<length baseArray])],
              vals := vals st @ JStr fieldName # map (JSON_stringify lib) baseArray\<rparr>
         else
           st\<lparr>index := i + 1 + length baseArray,
              patterns := patterns st @
                [bq (nm i) @ '' '' @ (if notIn then '' NOT '' else []) @ '' IN (''
                   @ join '','' (map (\<lambda>listIndex. sq (nm (i + 1 + listIndex))) [0..<length baseArray])
                   @ '')''],
              vals := vals st @ JStr fieldName # baseArray\<rparr>)
      else if \<not> notIn then emit (bq (nm i) @ '' IS NULL'') [JStr fieldName] 1 st
      else st)"

definition stepIn :: "sdk \<Rightarrow> json \<Rightarrow> bool \<Rightarrow> string \<Rightarrow> json \<Rightarrow> wstate \<Rightarrow> wstate" where
  "stepIn lib desc isArrayField fieldName fieldValue st =
     (let inList = getProp fieldValue ''$in''; ninList = getProp fieldValue ''$nin'' in
      if isArray inList \<and> isArrayField \<and> truthy (getProp desc ''contents'')
         \<and> getProp (getProp desc ''contents'') ''type'' = JStr ''String''
      then inStringArray fieldName (collectionValues inList) st
      else if isArray inList \<or> isArray ninList then
        (let st1 = (if truthy inList
                    then createConstraint lib isArrayField fieldName (flatMapId inList) False st
                    else st)
         in if truthy ninList
            then createConstraint lib isArrayField fieldName (flatMapId ninList) True st1
            else st1)
      else st)"

definition stepAll :: "sdk \<Rightarrow> bool \<Rightarrow> string \<Rightarrow> json \<Rightarrow> wstate \<Rightarrow> wstate" where
  "stepAll lib isArrayField fieldName fieldValue st =
     (let i = index st in
      if isArray (getProp fieldValue ''$all'') \<and> isArrayField
      then emit (''JSON_CONTAINS('' @ bq (nm i) @ '', '' @ sq (nm (i + 1)) @ '') = 1'')
             [JStr fieldName, JSON_stringify lib (getProp fieldValue ''$all'')] 2 st
      else st)"

definition stepExists :: "string \<Rightarrow> json \<Rightarrow> wstate \<Rightarrow> wstate" where
  "stepExists fieldName fieldValue st =
     (let i = index st in
      if typeof (getProp fieldValue ''$exists'') \<noteq> TUndefined
      then emit (if truthy (getProp fieldValue ''$exists'') then nm i @ '' IS NOT NULL''
                 else bq (nm i) @ '' IS NULL'')
             [JStr fieldName] 1 st
      else st)"

definition stepText :: "string \<Rightarrow> json \<Rightarrow> wstate \<Rightarrow> error + wstate" where
  "stepText fieldName fieldValue st =
     (let i = index st in
      if truthy (getProp fieldValue ''$text'') then
        (let search = getProp (getProp fieldValue ''$text'') ''$search'' in
         if typeof search \<noteq> TObject then
           Inl (ParseError INVALID_JSON ''bad $text: $search, should be object'')
         else if search = JNull then Inl TypeError
         else if \<not> truthy (getProp search ''$term'') \<or> typeof (getProp search ''$term'') \<noteq> TString then
           Inl (ParseError INVALID_JSON ''bad $text: $term, should be string'')
         else if truthy (getProp search ''$language'')
                 \<and> typeof (getProp search ''$language'') \<noteq> TString then
           Inl (ParseError INVALID_JSON ''bad $text: $language, should be string'')
         else if truthy (getProp search ''$caseSensitive'')
                 \<and> typeof (getProp search ''$caseSensitive'') \<noteq> TBoolean then
           Inl (ParseError INVALID_JSON ''bad $text: $caseSensitive, should be boolean'')
         else if truthy (getProp search ''$caseSensitive'') then
           Inl (ParseError INVALID_JSON
                  ''bad $text: $caseSensitive not supported, please use $regex or create a separate lower case column.'')
         else if truthy (getProp search ''$diacriticSensitive'')
                 \<and> typeof (getProp search ''$diacriticSensitive'') \<noteq> TBoolean then
           Inl (ParseError INVALID_JSON ''bad $text: $diacriticSensitive, should be boolean'')
         else if getProp search ''$diacriticSensitive'' = JBool False then
           Inl (ParseError INVALID_JSON
                  ''bad $text: $diacriticSensitive - false not supported, install MySQL Unaccent Extension'')
         else
           Inr (emit (''MATCH ('' @ bq (nm i) @ '') AGAINST ('' @ sq (nm (i + 1)) @ '')'')
                  [JStr fieldName, getProp search ''$term''] 2 st))
      else Inr st)"

definition distanceExpr :: "nat \<Rightarrow> string" where
  "distanceExpr i =
     ''ST_Distance_Sphere('' @ bq (nm i) @ '', ST_GeomFromText('' @ [squote] @ ''POINT(''
       @ nm (i + 1) @ '' '' @ nm (i + 2) @ '')'' @ [squote] @ ''))''"

definition stepNearSphere :: "sdk \<Rightarrow> string \<Rightarrow> json \<Rightarrow> wstate \<Rightarrow> wstate" where
  "stepNearSphere lib fieldName fieldValue st =
     (let i = index st; point = getProp fieldValue ''$nearSphere'' in
      if truthy point then
        (let st1 = st\<lparr>sorts := sorts st @ [distanceExpr i @ '' ASC'']\<rparr> in
         if truthy (getProp fieldValue ''$maxDistance'')
         then emit (distanceExpr i @ '' <= '' @ nm (i + 3))
                [JStr fieldName, getProp point ''longitude'', getProp point ''latitude'',
                 distanceInKM lib (getProp fieldValue ''$maxDistance'')] 4 st1
         else emit (distanceExpr i)
                [JStr fieldName, getProp point ''longitude'', getProp point ''latitude''] 3 st1)
      else st)"

definition coversExpr :: "nat \<Rightarrow> string" where
  "coversExpr i =
     ''MBRCovers(ST_GeomFromText('' @ [squote] @ ''Polygon('' @ nm i @ '')'' @ [squote] @ ''), ''
       @ bq (nm (i + 1)) @ '')''"

definition stepWithin :: "sdk \<Rightarrow> string \<Rightarrow> json \<Rightarrow> wstate \<Rightarrow> error + wstate" where
  "stepWithin lib fieldName fieldValue st =
     (let i = index st; box = getProp (getProp fieldValue ''$within'') ''$box'' in
      if truthy (getProp fieldValue ''$within'') \<and> truthy box then
        bindE (propE (elemAt box 0) ''longitude'') (\<lambda>left.
        bindE (propE (elemAt box 0) ''latitude'') (\<lambda>bottom.
        bindE (propE (elemAt box 1) ''longitude'') (\<lambda>right.
        bindE (propE (elemAt box 1) ''latitude'') (\<lambda>top.
        bindE (toStr lib left) (\<lambda>l.
        bindE (toStr lib bottom) (\<lambda>b.
        bindE (toStr lib top) (\<lambda>t.
        bindE (toStr lib right) (\<lambda>r.
          Inr (emit (coversExpr i)
                 [JStr (''('' @ l @ '' '' @ b @ '', '' @ l @ '' '' @ t @ '', ''
                          @ t @ '' '' @ r @ '', '' @ r @ '' '' @ b @ '', ''
                          @ l @ '' '' @ b @ '')''),
                  JStr fieldName] 2 st)))))))))
      else Inr st)"

text \<open>The callback of \<^verbatim>\<open>polygon.map\<close>: it checks one point and renders it.\<close>

definition polygonPoint :: "sdk \<Rightarrow> json \<Rightarrow> error + string" where
  "polygonPoint lib point =
     (if typeof point \<noteq> TObject then Inl (ParseError INVALID_JSON ''bad $geoWithin value'')
      else if point = JNull then Inl TypeError
      else if getProp point ''__type'' \<noteq> JStr ''GeoPoint'' then
        Inl (ParseError INVALID_JSON ''bad $geoWithin value'')
      else
        (case geoValidate lib (getProp point ''latitude'') (getProp point ''longitude'') of
           Some e \<Rightarrow> Inl e
         | None \<Rightarrow>
             bindE (toStr lib (getProp point ''longitude'')) (\<lambda>lng.
             bindE (toStr lib (getProp point ''latitude'')) (\<lambda>lat. Inr (lng @ '' '' @ lat)))))"

text \<open>
  \<^verbatim>\<open>$geoWithin.$polygon\<close>. An open ring is closed in the query itself
  (\<^verbatim>\<open>polygon.push(polygon[0])\<close>) before the points are checked.
\<close>

definition stepGeoWithin :: "sdk \<Rightarrow> string \<Rightarrow> json \<Rightarrow> wstate \<Rightarrow> json \<times> (error + wstate)" where
  "stepGeoWithin lib fieldName fieldValue st =
     (let i = index st; geoWithin = getProp fieldValue ''$geoWithin'';
          polygon = getProp geoWithin ''$polygon'' in
      if truthy geoWithin \<and> truthy polygon then
        (case polygon of
           JArr pts \<Rightarrow>
             if length pts < 3 then
               (fieldValue,
                Inl (ParseError INVALID_JSON
                       ''bad $geoWithin value; $polygon should contain at least 3 GeoPoints''))
             else if nullish (hd pts) \<or> nullish (last pts) then (fieldValue, Inl TypeError)
             else
               (let pts' = (if strictNe (getProp (hd pts) ''latitude'') (getProp (last pts) ''latitude'')
                               \<or> strictNe (getProp (hd pts) ''longitude'') (getProp (last pts) ''longitude'')
                            then pts @ [hd pts] else pts);
                    fieldValue' = setProp fieldValue ''$geoWithin'' (setProp geoWithin ''$polygon'' (JArr pts'))
                in (fieldValue',
                    bindE (mapE (polygonPoint lib) pts') (\<lambda>points.
                      Inr (emit (coversExpr i)
                             [JStr (''('' @ join '', '' points @ '')''), JStr fieldName] 2 st))))
         | _ \<Rightarrow>
             (fieldValue,
              Inl (ParseError INVALID_JSON
                     ''bad $geoWithin value; $polygon should contain at least 3 GeoPoints'')))
      else (fieldValue, Inr st))"

text \<open>
  \<^verbatim>\<open>opts.indexOf('x') >= 0\<close>: a string and an array have \<^verbatim>\<open>indexOf\<close>; the string
  functions \<^verbatim>\<open>removeWhiteSpace\<close> and \<^verbatim>\<open>processRegexPattern\<close> call exist on a string only.
\<close>

fun hasOptionX :: "json \<Rightarrow> error + bool" where
  "hasOptionX (JStr s) = Inr (CHR ''x'' \<in> set s)"
| "hasOptionX (JArr xs) = Inr (JStr ''x'' \<in> set xs)"
| "hasOptionX _ = Inl TypeError"

fun onString :: "(string \<Rightarrow> string) \<Rightarrow> json \<Rightarrow> error + json" where
  "onString f (JStr s) = Inr (JStr (f s))"
| "onString f _ = Inl TypeError"

definition stepRegex :: "string \<Rightarrow> json \<Rightarrow> wstate \<Rightarrow> error + wstate" where
  "stepRegex fieldName fieldValue st =
     (let i = index st; opts = getProp fieldValue ''$options'' in
      if truthy (getProp fieldValue ''$regex'') then
        bindE (if truthy opts
               then bindE (hasOptionX opts) (\<lambda>x.
                      if x then onString removeWhiteSpace (getProp fieldValue ''$regex'')
                      else Inr (getProp fieldValue ''$regex''))
               else Inr (getProp fieldValue ''$regex'')) (\<lambda>regex.
        bindE (onString processRegexPattern regex) (\<lambda>regex'.
          Inr (emit (bq (nm i) @ '' REGEXP '' @ sq (nm (i + 1))) [JStr fieldName, regex'] 2 st)))
      else Inr st)"

definition stepPointer :: "sdk \<Rightarrow> bool \<Rightarrow> string \<Rightarrow> json \<Rightarrow> wstate \<Rightarrow> wstate" where
  "stepPointer lib isArrayField fieldName fieldValue st =
     (let i = index st in
      if getProp fieldValue ''__type'' = JStr ''Pointer'' then
        (if isArrayField
         then emit (''JSON_CONTAINS('' @ bq (nm i) @ '', '' @ sq (nm (i + 1)) @ '') = 1'')
                [JStr fieldName, JSON_stringify lib (JArr [fieldValue])] 2 st
         else emit (nm i @ '' = '' @ sq (nm (i + 1)))
                [JStr fieldName, getProp fieldValue ''objectId''] 2 st)
      else st)"

definition stepDate :: "sdk \<Rightarrow> string \<Rightarrow> json \<Rightarrow> wstate \<Rightarrow> error + wstate" where
  "stepDate lib fieldName fieldValue st =
     (let i = index st in
      if getProp fieldValue ''__type'' = JStr ''Date'' then
        bindE (toMySQLValue lib fieldValue) (\<lambda>v.
          Inr (emit (bq (nm i) @ '' = '' @ sq (nm (i + 1))) [JStr fieldName, v] 2 st))
      else Inr st)"

definition stepGeoPoint :: "string \<Rightarrow> json \<Rightarrow> wstate \<Rightarrow> wstate" where
  "stepGeoPoint fieldName fieldValue st =
     (let i = index st in
      if getProp fieldValue ''__type'' = JStr ''GeoPoint'' then
        emit (bq (nm i) @ '' = ST_GeomFromText('' @ [squote] @ ''POINT('' @ nm (i + 1) @ '' ''
                @ nm (i + 2) @ '')'' @ [squote] @ '')'')
          [JStr fieldName, getProp fieldValue ''longitude'', getProp fieldValue ''latitude''] 3 st
      else st)"

definition ParseToMySQLComparator :: "(string \<times> string) list" where
  "ParseToMySQLComparator = [(''$gt'', ''>''), (''$lt'', ''<''), (''$gte'', ''>=''), (''$lte'', ''<='')]"

fun stepComparators :: "sdk \<Rightarrow> string \<Rightarrow> json \<Rightarrow> (string \<times> string) list \<Rightarrow> wstate \<Rightarrow> error + wstate" where
  "stepComparators lib fieldName fieldValue [] st = Inr st"
| "stepComparators lib fieldName fieldValue ((cmp, mysqlComparator) # rest) st =
     (if truthy (getProp fieldValue cmp) then
        bindE (toMySQLValue lib (getProp fieldValue cmp)) (\<lambda>v.
          stepComparators lib fieldName fieldValue rest
            (emit (bq (nm (index st)) @ '' '' @ mysqlComparator @ '' '' @ sq (nm (index st + 1)))
               [JStr fieldName, v] 2 st))
      else stepComparators lib fieldName fieldValue rest st)"

subsection \<open>The loop and the recursion\<close>

text \<open>
  The body of \<^verbatim>\<open>for (const fieldName in query)\<close> for one field, in the order of the
  source. \<open>fs\<close> is \<^verbatim>\<open>schema.fields\<close>. The result is the value of the field after the
  body (the body assigns into it) and how the body ends.
\<close>

definition whereField ::
  "sdk \<Rightarrow> (string \<times> json) list \<Rightarrow> string \<Rightarrow> json
     \<Rightarrow> json list \<times> (error + string list \<times> json list \<times> nat) \<Rightarrow> wstate \<Rightarrow> json \<times> wstate flow" where
  "whereField lib fs fieldName fieldValue sub st =
     (let desc = fieldDesc fs fieldName;
          isArrayField = (truthy desc \<and> getProp desc ''type'' = JStr ''Array'') in
      if \<not> truthy desc \<and> truthy fieldValue \<and> getProp fieldValue ''$exists'' = JBool False
      then (fieldValue, Continue st)
      else
        (case firstChain lib fieldName fieldValue sub st of
           (fv1, Raise e) \<Rightarrow> (fv1, Raise e)
         | (fv1, Continue st1) \<Rightarrow> (fv1, Continue st1)
         | (fv1, Next st1) \<Rightarrow>
             if nullish fv1 then (fv1, Raise TypeError)
             else
               (case stepNe lib isArrayField fieldName fv1 st1 of
                  (fv2, Raise e) \<Rightarrow> (fv2, Raise e)
                | (fv2, Continue st2) \<Rightarrow> (fv2, Continue st2)
                | (fv2, Next st2) \<Rightarrow>
                    (case bindE (stepText fieldName fv2
                                  (stepExists fieldName fv2
                                    (stepAll lib isArrayField fieldName fv2
                                      (stepIn lib desc isArrayField fieldName fv2
                                        (stepEq fieldName fv2 st2)))))
                            (\<lambda>st3. stepWithin lib fieldName fv2 (stepNearSphere lib fieldName fv2 st3)) of
                       Inl e \<Rightarrow> (fv2, Raise e)
                     | Inr st4 \<Rightarrow>
                         (case stepGeoWithin lib fieldName fv2 st4 of
                            (fv3, Inl e) \<Rightarrow> (fv3, Raise e)
                          | (fv3, Inr st5) \<Rightarrow>
                              (case bindE (stepRegex fieldName fv3 st5) (\<lambda>st6.
                                    bindE (stepDate lib fieldName fv3
                                             (stepPointer lib isArrayField fieldName fv3 st6)) (\<lambda>st7.
                                      stepComparators lib fieldName fv3 ParseToMySQLComparator
                                        (stepGeoPoint fieldName fv3 st7))) of
                                 Inl e \<Rightarrow> (fv3, Raise e)
                               | Inr st8 \<Rightarrow>
                                   if length (patterns st8) = length (patterns st)
                                   then (case toStr lib fv3 of
                                           Inl e \<Rightarrow> (fv3, Raise e)
                                         | Inr text \<Rightarrow>
                                             (fv3,
                                              Raise (ParseError OPERATION_FORBIDDEN
                                                (''MySQL does not support this query type yet ''
                                                   @ text))))
                                   else (fv3, Next st8)))))))"

text \<open>The end of a call: \<^verbatim>\<open>values.map(transformValue)\<close> and the returned object.\<close>

definition finish :: "wstate \<Rightarrow> error + clause" where
  "finish st =
     bindE (mapE transformValue (vals st)) (\<lambda>vs.
       Inr \<lparr>pattern = join '' AND '' (patterns st), boundValues = vs, sortExprs = sorts st\<rparr>)"

definition fieldsOf :: "schema \<Rightarrow> (string \<times> json) list" where
  "fieldsOf s = (case schemaFields s of None \<Rightarrow> [] | Some fs \<Rightarrow> fs)"

definition fieldsMeasure :: "(string \<times> json) list \<Rightarrow> nat" where
  "fieldsMeasure kvs = sum_list (map (\<lambda>p. case snd p of JArr xs \<Rightarrow> jsize (JArr xs) + 1 | _ \<Rightarrow> 1) kvs)"

lemma fieldsMeasure_le: "fieldsMeasure kvs \<le> sum_list (map (\<lambda>p. jsize (snd p) + 2) kvs)"
  unfolding fieldsMeasure_def
  by (rule sum_list_mono) (auto split: json.splits)

lemma sum_list_zip_le:
  fixes f g :: "'a \<Rightarrow> nat"
  shows "length ks = length xs \<Longrightarrow> (\<And>x. g x \<le> f x) \<Longrightarrow>
   sum_list (map (\<lambda>p. g (snd p)) (zip ks xs)) \<le> sum_list (map f xs)"
  by (induction ks xs rule: list_induct2) (auto intro: add_mono)

lemma fieldsMeasure_entries: "fieldsMeasure (entries q) \<le> jsize q"
proof (cases q)
  case (JStr s)
  have "fieldsMeasure (zip (map showNat [0..<length s]) (map (\<lambda>c. JStr [c]) s)) = length s"
    unfolding fieldsMeasure_def
    by (induction s rule: rev_induct) simp_all
  with JStr show ?thesis by simp
next
  case (JArr xs)
  have "fieldsMeasure (zip (map showNat [0..<length xs]) xs) \<le> sum_list (map (\<lambda>x. jsize x + 2) xs)"
    unfolding fieldsMeasure_def
    by (rule sum_list_zip_le) (auto split: json.splits)
  with JArr show ?thesis by simp
next
  case (JObj kvs)
  have "fieldsMeasure (ownProps kvs) = fieldsMeasure kvs"
    unfolding fieldsMeasure_def by (rule sum_list_ownProps)
  with JObj fieldsMeasure_le [of kvs] show ?thesis by simp
qed (simp_all add: fieldsMeasure_def)

text \<open>
  \<^verbatim>\<open>buildWhereClause({schema, query, index})\<close>, the loop over the fields of the query and
  the \<^verbatim>\<open>forEach\<close> over the sub-queries of \<^verbatim>\<open>$or\<close>/\<^verbatim>\<open>$and\<close>. A call returns the schema
  object and the query after the call with what the call returns or raises; the loop and
  the \<^verbatim>\<open>forEach\<close> return the fields and the sub-queries after them. The \<^verbatim>\<open>forEach\<close> calls
  \<^verbatim>\<open>buildWhereClause\<close> with the index the loop has reached and adds the number of values
  of every clause with a non-empty pattern.
\<close>

function (domintros) buildWhereClause :: "sdk \<Rightarrow> schema \<Rightarrow> json \<Rightarrow> nat \<Rightarrow> schema \<times> json \<times> (error + clause)"
  and whereFields ::
    "sdk \<Rightarrow> schema \<Rightarrow> (string \<times> json) list \<Rightarrow> wstate \<Rightarrow> (string \<times> json) list \<times> (error + wstate)"
  and whereClauses ::
    "sdk \<Rightarrow> schema \<Rightarrow> json list \<Rightarrow> nat \<Rightarrow> json list \<times> (error + string list \<times> json list \<times> nat)"
where
  "buildWhereClause lib schema query i =
     (case whereFields lib (toMySQLSchema schema) (entries query)
             \<lparr>index = i, patterns = [], vals = [], sorts = []\<rparr> of
        (kvs, r) \<Rightarrow> (toMySQLSchema schema, withEntries query kvs, bindE r finish))"
| "whereFields lib schema [] st = ([], Inr st)"
| "whereFields lib schema ((fieldName, fieldValue) # rest) st =
     (case whereField lib (fieldsOf schema) fieldName fieldValue
             (case fieldValue of
                JArr subs \<Rightarrow>
                  if fieldName = ''$or'' \<or> fieldName = ''$and''
                  then whereClauses lib schema subs (index st)
                  else ([], Inr ([], [], 0))
              | _ \<Rightarrow> ([], Inr ([], [], 0))) st of
        (fv, Raise e) \<Rightarrow> ((fieldName, fv) # rest, Inl e)
      | (fv, Continue st') \<Rightarrow>
          (case whereFields lib schema rest st' of (rest', r) \<Rightarrow> ((fieldName, fv) # rest', r))
      | (fv, Next st') \<Rightarrow>
          (case whereFields lib schema rest st' of (rest', r) \<Rightarrow> ((fieldName, fv) # rest', r)))"
| "whereClauses lib schema [] i = ([], Inr ([], [], i))"
| "whereClauses lib schema (subQuery # subs) i =
     (case buildWhereClause lib schema subQuery i of
        (schema', subQuery', Inl e) \<Rightarrow> (subQuery' # subs, Inl e)
      | (schema', subQuery', Inr c) \<Rightarrow>
          (case whereClauses lib schema subs
                  (if pattern c \<noteq> [] then i + length (boundValues c) else i) of
             (subs', Inl e) \<Rightarrow> (subQuery' # subs', Inl e)
           | (subs', Inr (clauses, clauseValues, j)) \<Rightarrow>
               (subQuery' # subs',
                Inr (if pattern c \<noteq> []
                     then (pattern c # clauses, boundValues c @ clauseValues, j)
                     else (clauses, clauseValues, j)))))"
  by pat_completeness auto

text \<open>
  Every call, every run of the loop and every \<^verbatim>\<open>forEach\<close> is in the domain of the
  recursion: each recursive call is on a smaller part of the document.
\<close>

definition callMeasure ::
  "sdk \<times> schema \<times> json \<times> nat + sdk \<times> schema \<times> (string \<times> json) list \<times> wstate
     + sdk \<times> schema \<times> json list \<times> nat \<Rightarrow> nat" where
  "callMeasure x =
     (case x of
        Inl (lib, schema, query, i) \<Rightarrow> jsize query + 1
      | Inr (Inl (lib, schema, kvs, st)) \<Rightarrow> fieldsMeasure kvs
      | Inr (Inr (lib, schema, subs, i)) \<Rightarrow> sum_list (map (\<lambda>x. jsize x + 2) subs))"

lemma buildWhereClause_total: "buildWhereClause_whereFields_whereClauses_dom x"
proof (induction x rule: measure_induct_rule [of callMeasure])
  case (less x)
  show ?case
  proof (cases x)
    case (Inl a)
    obtain lib schema query i where a: "a = (lib, schema, query, i)" by (cases a)
    show ?thesis
      unfolding Inl a
      by (rule buildWhereClause_whereFields_whereClauses.domintros, rule less)
         (simp add: Inl a callMeasure_def le_imp_less_Suc [OF fieldsMeasure_entries])
  next
    case (Inr y)
    show ?thesis
    proof (cases y)
      case (Inl b)
      obtain lib schema kvs st where b: "b = (lib, schema, kvs, st)" by (cases b)
      show ?thesis
      proof (cases kvs)
        case Nil
        show ?thesis
          unfolding Inr Inl b Nil
          by (rule buildWhereClause_whereFields_whereClauses.domintros)
      next
        case (Cons p rest)
        obtain k v where p: "p = (k, v)" by (cases p)
        show ?thesis
          unfolding Inr Inl b Cons p
          by (rule buildWhereClause_whereFields_whereClauses.domintros; rule less)
             (auto simp: Inr Inl b Cons p callMeasure_def fieldsMeasure_def split: json.splits)
      qed
    next
      case (Inr c)
      obtain lib schema subs i where c: "c = (lib, schema, subs, i)" by (cases c)
      show ?thesis
      proof (cases subs)
        case Nil
        show ?thesis
          unfolding \<open>x = Inr y\<close> Inr c Nil
          by (rule buildWhereClause_whereFields_whereClauses.domintros)
      next
        case (Cons q rest)
        show ?thesis
          unfolding \<open>x = Inr y\<close> Inr c Cons
          by (rule buildWhereClause_whereFields_whereClauses.domintros; rule less)
             (auto simp: \<open>x = Inr y\<close> Inr c Cons callMeasure_def)
      qed
    qed
  qed
qed

termination buildWhereClause
  using buildWhereClause_total by blast

declare buildWhereClause.simps [simp del]

section \<open>Update expression compiler\<close>

text \<open>
  An update document is an object, given by its entries. Values are trees: the model
  does not share an object between two places of a document. The source is strict-mode
  code, where an assignment to a property of a string, a number or a boolean raises a
  \<^verbatim>\<open>TypeError\<close>. Two assignments of \<^verbatim>\<open>handleDotFields\<close> and of the folding of \<^verbatim>\<open>authData\<close>
  lead out of the documents of the model, and the functions give \<open>None\<close> for them: on an
  array, an assignment to a key that is not an index up to the length of the array (it
  makes a property of the array, or holes in it); and on an object, the use of what the
  object inherits under a name it does not hold (a method of \<^verbatim>\<open>Object.prototype\<close> taken for
  the object of the next component, or an assignment to \<^verbatim>\<open>__proto__\<close>).
\<close>

text \<open>\<^verbatim>\<open>o[k] = o[k] || {}\<close>, and the value of \<^verbatim>\<open>o[k]\<close> after it.\<close>

definition orEmpty :: "json \<Rightarrow> json" where
  "orEmpty v = (if truthy v then v else JObj [])"

definition bindO :: "(error + 'a) option \<Rightarrow> ('a \<Rightarrow> (error + 'b) option) \<Rightarrow> (error + 'b) option" where
  "bindO r f = (case r of None \<Rightarrow> None | Some (Inl e) \<Rightarrow> Some (Inl e) | Some (Inr x) \<Rightarrow> f x)"

text \<open>
  \<^verbatim>\<open>o[k]\<close> and \<^verbatim>\<open>o[k] = v\<close> for a key \<open>k\<close> computed from a field name: the value read, and
  \<open>o\<close> after the assignment.
\<close>

fun readProp :: "json \<Rightarrow> string \<Rightarrow> json option" where
  "readProp (JObj kvs) k =
     (if k \<notin> fst ` set kvs \<and> k \<in> set inheritedNames then None else Some (getProp (JObj kvs) k))"
| "readProp (JArr xs) k =
     (if isIndexKey k \<and> readNat k \<le> length xs then Some (elemAt (JArr xs) (readNat k)) else None)"
| "readProp v k = Some JUndefined"

fun assignProp :: "json \<Rightarrow> string \<Rightarrow> json \<Rightarrow> (error + json) option" where
  "assignProp (JObj kvs) k v =
     (if k = ''__proto__'' \<and> k \<notin> fst ` set kvs then None
      else Some (Inr (JObj (AList.update k v kvs))))"
| "assignProp (JArr xs) k v =
     (if isIndexKey k \<and> readNat k \<le> length xs
      then Some (Inr (JArr (if readNat k < length xs then xs[readNat k := v] else xs @ [v])))
      else None)"
| "assignProp cur k v = Some (Inl TypeError)"

text \<open>
  The \<^verbatim>\<open>while\<close> loop of \<^verbatim>\<open>handleDotFields\<close> from \<^verbatim>\<open>currentObj\<close> on: for every
  component up to the first empty one it makes sure of an object under the component
  and, at the last component, stores the value. The result is \<^verbatim>\<open>currentObj\<close> after the
  loop. (On a string, a number or a boolean the value read does not matter: the
  assignment raises.)
\<close>

fun setPath :: "string list \<Rightarrow> json \<Rightarrow> json \<Rightarrow> (error + json) option" where
  "setPath [] value cur = Some (Inr cur)"
| "setPath (next # rest) value cur =
     (if next = [] then Some (Inr cur)
      else if rest = [] then assignProp cur next value
      else
        (case readProp cur next of
           None \<Rightarrow> None
         | Some old \<Rightarrow>
             bindO (assignProp cur next (orEmpty old)) (\<lambda>cur1.
             bindO (setPath rest value (orEmpty old)) (\<lambda>child. assignProp cur1 next child))))"

text \<open>The body of the \<^verbatim>\<open>forEach\<close> of \<^verbatim>\<open>handleDotFields\<close> for one key of the object.\<close>

definition handleDotField ::
  "string \<Rightarrow> (string \<times> json) list \<Rightarrow> (error + (string \<times> json) list) option" where
  "handleDotField fieldName object =
     (if CHR ''.'' \<in> set fieldName then
        (let components = splitOn CHR ''.'' fieldName;
             first = hd components;
             value0 = getProp (JObj object) fieldName;
             value = (if truthy value0 \<and> getProp value0 ''__op'' = JStr ''Delete''
                      then JUndefined else value0)
         in case readProp (JObj object) first of
              None \<Rightarrow> None
            | Some old \<Rightarrow>
                bindO (setPath (tl components) value (orEmpty old)) (\<lambda>top'.
                  Some (Inr (AList.delete fieldName (AList.update first top' object)))))
      else Some (Inr object))"

fun handleDotLoop ::
  "string list \<Rightarrow> (string \<times> json) list \<Rightarrow> (error + (string \<times> json) list) option" where
  "handleDotLoop [] object = Some (Inr object)"
| "handleDotLoop (fieldName # rest) object =
     bindO (handleDotField fieldName object) (handleDotLoop rest)"

definition handleDotFields :: "(string \<times> json) list \<Rightarrow> (error + (string \<times> json) list) option" where
  "handleDotFields object = handleDotLoop (map fst (ownProps object)) object"

text \<open>
  \<^verbatim>\<open>fieldName.match(/^_auth_data_([a-zA-Z0-9_]+)$/)\<close>: the provider, if the name matches.
\<close>

definition authDataMatch :: "string \<Rightarrow> string option" where
  "authDataMatch fieldName =
     (let provider = drop 11 fieldName in
      if take 11 fieldName = ''_auth_data_'' \<and> provider \<noteq> []
         \<and> list_all (\<lambda>c. isAlnum c \<or> c = CHR ''_'') provider
      then Some provider else None)"

text \<open>The first loop of \<^verbatim>\<open>transformUpdate\<close>, which folds the providers into \<^verbatim>\<open>authData\<close>.\<close>

definition foldAuthField ::
  "string \<Rightarrow> (string \<times> json) list \<Rightarrow> (error + (string \<times> json) list) option" where
  "foldAuthField fieldName update =
     (case authDataMatch fieldName of
        None \<Rightarrow> Some (Inr update)
      | Some provider \<Rightarrow>
          (let value = getProp (JObj update) fieldName;
               update1 = AList.delete fieldName update;
               authData = orEmpty (getProp (JObj update1) ''authData'')
           in bindO (assignProp authData provider value) (\<lambda>authData'.
                Some (Inr (AList.update ''authData'' authData' update1)))))"

fun foldAuthLoop ::
  "string list \<Rightarrow> (string \<times> json) list \<Rightarrow> (error + (string \<times> json) list) option" where
  "foldAuthLoop [] update = Some (Inr update)"
| "foldAuthLoop (fieldName # rest) update =
     bindO (foldAuthField fieldName update) (foldAuthLoop rest)"

text \<open>\<^verbatim>\<open>Object.keys(v)\<close>, which raises on \<^verbatim>\<open>undefined\<close> and \<^verbatim>\<open>null\<close>.\<close>

definition objectKeys :: "json \<Rightarrow> error + string list" where
  "objectKeys v = (if nullish v then Inl TypeError else Inr (map fst (entries v)))"

text \<open>\<^verbatim>\<open>v[k]\<close> for a key \<open>k\<close> of \<^verbatim>\<open>Object.keys(v)\<close>.\<close>

definition entryOf :: "json \<Rightarrow> string \<Rightarrow> json" where
  "entryOf v k = (case map_of (entries v) k of None \<Rightarrow> JUndefined | Some x \<Rightarrow> x)"

text \<open>
  The \<^verbatim>\<open>authData\<close> branch: the \<^verbatim>\<open>reduce\<close> over the providers returns the expression of
  the last provider (\<^verbatim>\<open>generate\<close> does not use its first argument), and pushes the key and
  the value of every provider.
\<close>

definition generateAuth :: "nat \<Rightarrow> string" where
  "generateAuth i =
     ''JSON_SET(COALESCE('' @ bq ''authData'' @ '', '' @ sq ''{}'' @ ''), '' @ sq (''$.'' @ nm i)
       @ '', CAST('' @ sq (nm (i + 1)) @ '' AS JSON))''"

fun authReduce :: "sdk \<Rightarrow> json \<Rightarrow> string list \<Rightarrow> string \<Rightarrow> wstate \<Rightarrow> string \<times> wstate" where
  "authReduce lib fieldValue [] lastKey st = (lastKey, st)"
| "authReduce lib fieldValue (key # rest) lastKey st =
     (let value0 = entryOf fieldValue key;
          value = (if truthy value0
                   then (if getProp value0 ''__op'' = JStr ''Delete'' then JNull
                         else JSON_stringify lib value0)
                   else value0)
      in authReduce lib fieldValue rest (generateAuth (index st))
           (st\<lparr>index := index st + 2, vals := vals st @ [JStr key, value]\<rparr>))"

text \<open>The callbacks of \<^verbatim>\<open>fieldValue.objects.map\<close> in the \<^verbatim>\<open>Remove\<close> and \<^verbatim>\<open>AddUnique\<close> branches.\<close>

definition removeExpr :: "nat \<Rightarrow> string" where
  "removeExpr i =
     bq (nm i) @ '' = JSON_REMOVE('' @ bq (nm i) @ '', REPLACE(JSON_SEARCH(COALESCE('' @ bq (nm i)
       @ '','' @ sq ''[]'' @ ''), '' @ sq ''one'' @ '', '' @ sq (nm (i + 1)) @ ''),'' @ sq [dquote]
       @ '','' @ sq [] @ ''))''"

definition addUniqueExpr :: "nat \<Rightarrow> string" where
  "addUniqueExpr i =
     bq (nm i) @ '' = if (JSON_CONTAINS('' @ bq (nm i) @ '', '' @ sq (nm (i + 1))
       @ '') = 0, JSON_MERGE('' @ bq (nm i) @ '','' @ sq (nm (i + 1)) @ ''),'' @ bq (nm i) @ '')''"

fun objectsLoop :: "sdk \<Rightarrow> (nat \<Rightarrow> string) \<Rightarrow> string \<Rightarrow> json list \<Rightarrow> wstate \<Rightarrow> wstate" where
  "objectsLoop lib expr fieldName [] st = st"
| "objectsLoop lib expr fieldName (obj # rest) st =
     objectsLoop lib expr fieldName rest
       (emit (expr (index st))
          [JStr fieldName, if typeof obj = TObject then JSON_stringify lib obj else obj] 2 st)"

text \<open>
  The branch of an object value on an Object field. \<open>originalUpdate\<close> is the copy
  \<^verbatim>\<open>{...update}\<close> made before \<^verbatim>\<open>handleDotFields\<close>; reading \<^verbatim>\<open>__op\<close> of one of its values
  raises when the value is \<^verbatim>\<open>null\<close>.
\<close>

fun filterE :: "('a \<Rightarrow> error + bool) \<Rightarrow> 'a list \<Rightarrow> error + 'a list" where
  "filterE p [] = Inr []"
| "filterE p (x # xs) =
     bindE (p x) (\<lambda>b. bindE (filterE p xs) (\<lambda>ys. Inr (if b then x # ys else ys)))"

definition nestedKey :: "string \<Rightarrow> string \<Rightarrow> bool" where
  "nestedKey fieldName k =
     (length (splitOn CHR ''.'' k) = 2 \<and> hd (splitOn CHR ''.'' k) = fieldName)"

definition secondComponent :: "string \<Rightarrow> string" where
  "secondComponent k = splitOn CHR ''.'' k ! 1"

text \<open>
  \<^verbatim>\<open>delete v[key]\<close> for every key of a list. On an array it leaves a hole in the place
  of an element; a hole reads, and is written by \<^verbatim>\<open>JSON.stringify\<close>, as \<^verbatim>\<open>undefined\<close>
  is, and \<open>JUndefined\<close> stands for it.
\<close>

fun deleteKeys :: "string list \<Rightarrow> json \<Rightarrow> json" where
  "deleteKeys ks (JObj kvs) = JObj (filter (\<lambda>(k, v). k \<notin> set ks) kvs)"
| "deleteKeys ks (JArr xs) =
     JArr (map (\<lambda>(i, x). if showNat i \<in> set ks then JUndefined else x) (zip [0..<length xs] xs))"
| "deleteKeys ks v = v"

definition updateKeys ::
  "(string \<times> json) list \<Rightarrow> string
     \<Rightarrow> error + string list \<times> string list \<times> string list \<times> string list" where
  "updateKeys originalUpdate fieldName =
     bindE (filterE (\<lambda>(k, v). bindE (propE v ''__op'') (\<lambda>op.
              Inr (\<not> truthy op \<and> CHR ''.'' \<notin> set k \<and> k \<noteq> ''updatedAt''))) (ownProps originalUpdate))
       (\<lambda>keysToSet.
     bindE (filterE (\<lambda>(k, v). bindE (propE v ''__op'') (\<lambda>op.
              Inr (\<not> truthy op \<and> nestedKey fieldName k))) (ownProps originalUpdate))
       (\<lambda>toReplace.
     bindE (filterE (\<lambda>(k, v). bindE (propE v ''__op'') (\<lambda>op.
              Inr (op = JStr ''Increment'' \<and> nestedKey fieldName k))) (ownProps originalUpdate))
       (\<lambda>toIncrement.
     bindE (filterE (\<lambda>(k, v). bindE (propE v ''__op'') (\<lambda>op.
              Inr (op = JStr ''Delete'' \<and> nestedKey fieldName k))) (ownProps originalUpdate))
       (\<lambda>toDelete. Inr (map fst keysToSet, map (secondComponent \<circ> fst) toReplace,
                        map (secondComponent \<circ> fst) toIncrement,
                        map (secondComponent \<circ> fst) toDelete)))))"

text \<open>
  The rest of the branch, from the four lists \<^verbatim>\<open>keysToSet\<close>, \<^verbatim>\<open>keysToReplace\<close>,
  \<^verbatim>\<open>keysToIncrement\<close> and \<^verbatim>\<open>keysToDelete\<close>: the patterns, the keys deleted from the value
  of the field, and the values pushed.
\<close>

definition objectAssignments ::
  "sdk \<Rightarrow> string list \<Rightarrow> string list \<Rightarrow> string list \<Rightarrow> string list \<Rightarrow> string \<Rightarrow> json \<Rightarrow> wstate
     \<Rightarrow> json \<times> (error + wstate)" where
  "objectAssignments lib keysToSet keysToReplace keysToIncrement keysToDelete fieldName fieldValue st =
     (let i = index st;
          setPattern = join '','' (map (\<lambda>k. ''CAST('' @ sq (stringifyTemplate lib fieldValue)
                                          @ '' AS JSON)'') keysToSet)
      in case mapE (\<lambda>c. if typeof (entryOf fieldValue c) = TObject
                       then Inr (sq (''$.'' @ c) @ '', CAST(''
                              @ sq (stringifyTemplate lib (entryOf fieldValue c)) @ '' AS JSON)'')
                       else bindE (toStr lib (entryOf fieldValue c)) (\<lambda>text.
                              Inr (sq (''$.'' @ c) @ '', '' @ sq text)))
               keysToReplace of
           Inl e \<Rightarrow> (fieldValue, Inl e)
         | Inr reps \<Rightarrow>
      (let replacePattern = join '' || '' reps;
           fieldValue1 = deleteKeys keysToReplace fieldValue
       in case mapE (\<lambda>c. bindE (propE (entryOf fieldValue1 c) ''amount'') (\<lambda>amount.
                   bindE (toStr lib amount) (\<lambda>text.
                     Inr (sq (''$.'' @ c) @ '', COALESCE('' @ bq (nm i) @ ''->>'' @ sq (''$.'' @ c)
                            @ '','' @ sq ''0'' @ '') + '' @ text)))) keysToIncrement of
           Inl e \<Rightarrow> (fieldValue1, Inl e)
         | Inr incs \<Rightarrow>
             (let fieldValue2 = deleteKeys keysToIncrement fieldValue1;
                  deletePatterns = (if keysToDelete = [] then '', ''
                                    else sq (''$.'' @ nm (i + 1 + (length keysToDelete - 1))))
              in (fieldValue2,
                  Inr (st\<lparr>index := i + 2 + length keysToDelete,
                          patterns := patterns st
                            @ (if keysToDelete \<noteq> []
                               then [bq (nm i) @ '' = JSON_REMOVE('' @ bq (nm i) @ '', ''
                                       @ deletePatterns @ '')'']
                               else [])
                            @ (if keysToIncrement \<noteq> []
                               then [bq (nm i) @ '' = JSON_SET(COALESCE('' @ bq (nm i) @ '', ''
                                       @ sq ''{}'' @ ''), '' @ join '' || '' incs @ '')'']
                               else [])
                            @ (if keysToReplace \<noteq> []
                               then [bq (nm i) @ '' = JSON_SET(COALESCE('' @ bq (nm i) @ '', ''
                                       @ sq ''{}'' @ ''), '' @ replacePattern @ '')'']
                               else [])
                            @ (if keysToSet \<noteq> [] then [bq (nm i) @ '' = '' @ setPattern]
                               else []),
                          vals := vals st @ JStr fieldName # map JStr keysToDelete
                            @ [JSON_stringify lib fieldValue2]\<rparr>)))))"

definition objectBranch ::
  "sdk \<Rightarrow> (string \<times> json) list \<Rightarrow> string \<Rightarrow> json \<Rightarrow> wstate \<Rightarrow> json \<times> (error + wstate)" where
  "objectBranch lib originalUpdate fieldName fieldValue st =
     (case updateKeys originalUpdate fieldName of
        Inl e \<Rightarrow> (fieldValue, Inl e)
      | Inr (keysToSet, keysToReplace, keysToIncrement, keysToDelete) \<Rightarrow>
          objectAssignments lib keysToSet keysToReplace keysToIncrement keysToDelete
            fieldName fieldValue st)"

text \<open>
  How the body of the second loop ends for one field: it raises, it returns a rejected
  promise (\<^verbatim>\<open>return Promise.reject(...)\<close>), or it runs on.
\<close>

datatype 'a step = Throw error | Reject error | Go 'a

text \<open>
  The body of the second loop for one field is one chain of tests, given here in four
  parts in the order of the source: the tests on \<^verbatim>\<open>null\<close> and \<^verbatim>\<open>authData\<close>, on
  \<^verbatim>\<open>__op\<close>, on the name, the type and \<^verbatim>\<open>__type\<close> of the value, and on the type of the
  field in the schema. \<open>fs\<close> is \<^verbatim>\<open>schema.fields\<close> (\<open>None\<close> when the schema has no field
  map). The variables \<^verbatim>\<open>index\<close>, \<^verbatim>\<open>updatePatterns\<close> and \<^verbatim>\<open>values\<close> are the state. A
  JSON document holds no \<^verbatim>\<open>Date\<close> object, so the test \<^verbatim>\<open>fieldValue instanceof Date\<close>
  fails.
\<close>

definition updateBySchema ::
  "sdk \<Rightarrow> (string \<times> json) list option \<Rightarrow> (string \<times> json) list \<Rightarrow> string \<Rightarrow> json \<Rightarrow> wstate
     \<Rightarrow> json \<times> wstate step" where
  "updateBySchema lib fs originalUpdate fieldName fieldValue st =
     (if typeof fieldValue = TObject then
        (case fs of
           None \<Rightarrow> (fieldValue, Throw TypeError)
         | Some fmap \<Rightarrow>
             if truthy (fieldDesc fmap fieldName)
                \<and> getProp (fieldDesc fmap fieldName) ''type'' = JStr ''Object''
             then (case objectBranch lib originalUpdate fieldName fieldValue st of
                     (fieldValue', Inl e) \<Rightarrow> (fieldValue', Throw e)
                   | (fieldValue', Inr st') \<Rightarrow> (fieldValue', Go st'))
             else if isArray fieldValue \<and> truthy (fieldDesc fmap fieldName)
                     \<and> getProp (fieldDesc fmap fieldName) ''type'' = JStr ''Array''
             then (fieldValue,
                   Go (emit (nm (index st) @ '' = '' @ sq (nm (index st + 1)))
                         [JStr fieldName, JSON_stringify lib fieldValue] 2 st))
             else (fieldValue,
                   Reject (ParseError OPERATION_FORBIDDEN
                             (''MySQL doesn'' @ [squote] @ ''t support update ''
                                @ stringifyTemplate lib fieldValue @ '' yet''))))
      else (fieldValue,
            Reject (ParseError OPERATION_FORBIDDEN
                      (''MySQL doesn'' @ [squote] @ ''t support update ''
                         @ stringifyTemplate lib fieldValue @ '' yet''))))"

definition updateByType ::
  "sdk \<Rightarrow> (string \<times> json) list option \<Rightarrow> (string \<times> json) list \<Rightarrow> string \<Rightarrow> json \<Rightarrow> wstate
     \<Rightarrow> json \<times> wstate step" where
  "updateByType lib fs originalUpdate fieldName fieldValue st =
     (let i = index st; ty = getProp fieldValue ''__type'' in
      if fieldName = ''updatedAt'' \<or> fieldName = ''finishedAt'' then
        (case formatDateToMySQL lib fieldValue of
           Inl e \<Rightarrow> (fieldValue, Throw e)
         | Inr v \<Rightarrow>
             (fieldValue,
              Go (emit (bq (nm i) @ '' = '' @ sq (nm (i + 1))) [JStr fieldName, v] 2 st)))
      else if typeof fieldValue = TString then
        (fieldValue,
         Go (emit (bq (nm i) @ '' = '' @ sq (nm (i + 1))) [JStr fieldName, fieldValue] 2 st))
      else if typeof fieldValue = TBoolean then
        (fieldValue,
         Go (emit (bq (nm i) @ '' = '' @ nm (i + 1)) [JStr fieldName, fieldValue] 2 st))
      else if ty = JStr ''Pointer'' then
        (fieldValue,
         Go (emit (bq (nm i) @ '' = '' @ sq (nm (i + 1)))
               [JStr fieldName, getProp fieldValue ''objectId''] 2 st))
      else if ty = JStr ''Date'' then
        (case toMySQLValue lib fieldValue of
           Inl e \<Rightarrow> (fieldValue, Throw e)
         | Inr v \<Rightarrow>
             (fieldValue,
              Go (emit (bq (nm i) @ '' = '' @ sq (nm (i + 1))) [JStr fieldName, v] 2 st)))
      else if ty = JStr ''File'' then
        (case toMySQLValue lib fieldValue of
           Inl e \<Rightarrow> (fieldValue, Throw e)
         | Inr v \<Rightarrow>
             (fieldValue,
              Go (emit (bq (nm i) @ '' = '' @ sq (nm (i + 1))) [JStr fieldName, v] 2 st)))
      else if ty = JStr ''GeoPoint'' then
        (fieldValue,
         Go (emit (bq (nm i) @ '' = POINT($'' @ showNat (i + 1) @ '', $'' @ showNat (i + 2) @ '')'')
               [JStr fieldName, getProp fieldValue ''longitude'', getProp fieldValue ''latitude'']
               3 st))
      else if ty = JStr ''Relation'' then (fieldValue, Go st)
      else if typeof fieldValue = TNumber then
        (fieldValue,
         Go (emit (bq (nm i) @ '' = $'' @ showNat (i + 1)) [JStr fieldName, fieldValue] 2 st))
      else updateBySchema lib fs originalUpdate fieldName fieldValue st)"

definition updateByOp ::
  "sdk \<Rightarrow> (string \<times> json) list option \<Rightarrow> (string \<times> json) list \<Rightarrow> string \<Rightarrow> json \<Rightarrow> wstate
     \<Rightarrow> json \<times> wstate step" where
  "updateByOp lib fs originalUpdate fieldName fieldValue st =
     (let i = index st; op = getProp fieldValue ''__op'' in
      if op = JStr ''Increment'' then
        (fieldValue,
         Go (emit (bq (nm i) @ '' = COALESCE('' @ bq (nm i) @ '', 0) + '' @ nm (i + 1))
               [JStr fieldName, getProp fieldValue ''amount''] 2 st))
      else if op = JStr ''Add'' then
        (fieldValue,
         Go (emit (bq (nm i) @ ''= JSON_ARRAY_INSERT(COALESCE('' @ bq (nm i) @ '', '' @ sq ''[]''
                     @ ''), CONCAT('' @ sq ''$['' @ '',JSON_LENGTH('' @ bq (nm i) @ ''),'' @ sq '']''
                     @ ''), '' @ sq (nm (i + 1)) @ '')'')
               [JStr fieldName, JSON_stringify lib (getProp fieldValue ''objects'')] 2 st))
      else if op = JStr ''Delete'' then
        (fieldValue,
         Go (emit (bq (nm i) @ '' = $'' @ showNat (i + 1)) [JStr fieldName, JNull] 2 st))
      else if op = JStr ''Remove'' then
        (case getProp fieldValue ''objects'' of
           JArr objs \<Rightarrow> (fieldValue, Go (objectsLoop lib removeExpr fieldName objs st))
         | _ \<Rightarrow> (fieldValue, Throw TypeError))
      else if op = JStr ''AddUnique'' then
        (case getProp fieldValue ''objects'' of
           JArr objs \<Rightarrow> (fieldValue, Go (objectsLoop lib addUniqueExpr fieldName objs st))
         | _ \<Rightarrow> (fieldValue, Throw TypeError))
      else updateByType lib fs originalUpdate fieldName fieldValue st)"

definition updateField ::
  "sdk \<Rightarrow> (string \<times> json) list option \<Rightarrow> (string \<times> json) list \<Rightarrow> string \<Rightarrow> json \<Rightarrow> wstate
     \<Rightarrow> json \<times> wstate step" where
  "updateField lib fs originalUpdate fieldName fieldValue st =
     (let i = index st in
      if fieldValue = JNull then
        (fieldValue, Go (emit (nm i @ '' = NULL'') [JStr fieldName] 1 st))
      else if fieldName = ''authData'' then
        (case objectKeys fieldValue of
           Inl e \<Rightarrow> (fieldValue, Throw e)
         | Inr keys \<Rightarrow>
             (case authReduce lib fieldValue keys (nm i)
                     (st\<lparr>index := i + 1, vals := vals st @ [JStr (bq fieldName)]\<rparr>) of
                (update, st') \<Rightarrow>
                  (fieldValue, Go (st'\<lparr>patterns := patterns st' @ [nm i @ '' = '' @ update]\<rparr>))))
      else if nullish fieldValue then (fieldValue, Throw TypeError)
      else updateByOp lib fs originalUpdate fieldName fieldValue st)"

text \<open>The second loop: the fields after it, and how it ends.\<close>

fun updateLoop ::
  "sdk \<Rightarrow> (string \<times> json) list option \<Rightarrow> (string \<times> json) list \<Rightarrow> (string \<times> json) list \<Rightarrow> wstate
     \<Rightarrow> (string \<times> json) list \<times> wstate step" where
  "updateLoop lib fs originalUpdate [] st = ([], Go st)"
| "updateLoop lib fs originalUpdate ((fieldName, fieldValue) # rest) st =
     (case updateField lib fs originalUpdate fieldName fieldValue st of
        (fv, Throw e) \<Rightarrow> ((fieldName, fv) # rest, Throw e)
      | (fv, Reject e) \<Rightarrow> ((fieldName, fv) # rest, Reject e)
      | (fv, Go st') \<Rightarrow>
          (case updateLoop lib fs originalUpdate rest st' of
             (rest', r) \<Rightarrow> ((fieldName, fv) # rest', r)))"

text \<open>
  What a call of \<^verbatim>\<open>transformUpdate\<close> gives: the object \<^verbatim>\<open>{pattern, index, values}\<close>, a
  rejected promise, or an error raised.
\<close>

datatype updateOutcome =
    Fragment string nat "json list"
  | RejectedPromise error
  | Thrown error
  | NotCovered

text \<open>
  \<^verbatim>\<open>transformUpdate(schema, update)\<close>: the update document after the call (\<open>None\<close> when
  \<^verbatim>\<open>handleDotFields\<close> or the folding of \<^verbatim>\<open>authData\<close> raised half-way) and the outcome,
  \<open>NotCovered\<close> when one of the two has left the documents of the model. The two loops
  visit the properties of the document in the order of \<open>ownProps\<close>. The schema is only
  read.
\<close>

definition transformUpdate ::
  "sdk \<Rightarrow> schema \<Rightarrow> (string \<times> json) list \<Rightarrow> (string \<times> json) list option \<times> updateOutcome" where
  "transformUpdate lib schema update =
     (case bindO (handleDotFields update) (\<lambda>u. foldAuthLoop (map fst (ownProps u)) u) of
        None \<Rightarrow> (None, NotCovered)
      | Some (Inl e) \<Rightarrow> (None, Thrown e)
      | Some (Inr update1) \<Rightarrow>
          (case updateLoop lib (schemaFields schema) update (ownProps update1)
                  \<lparr>index = 2, patterns = [], vals = [], sorts = []\<rparr> of
             (update2, Throw e) \<Rightarrow> (Some (putProps update1 update2), Thrown e)
           | (update2, Reject e) \<Rightarrow> (Some (putProps update1 update2), RejectedPromise e)
           | (update2, Go st) \<Rightarrow>
               (Some (putProps update1 update2),
                Fragment (join '','' (patterns st)) (index st) (vals st))))"

section \<open>Notions the properties are stated with\<close>

text \<open>
  A stand-in for the Parse SDK and the runtime, for statements at a concrete input: a
  date given as a string encodes to this string, every point is valid, the distance is
  left as it is, and a number from \<open>2\<^sup>5\<^sup>3\<close> on is written with all its digits.
\<close>

definition plainSdk :: sdk where
  "plainSdk =
     \<lparr>encodeDate = (\<lambda>v. Inr (case v of JStr s \<Rightarrow> s | _ \<Rightarrow> [])),
      geoValidate = (\<lambda>lat lng. None), distanceInKM = (\<lambda>d. d), numberText = showInt\<rparr>"

text \<open>\<^verbatim>\<open>isArrayField\<close> of the loop body, for a field of the schema a call is given.\<close>

definition isArrayFieldOf :: "schema \<Rightarrow> string \<Rightarrow> bool" where
  "isArrayFieldOf schema f =
     (truthy (fieldDesc (fieldsOf (toMySQLSchema schema)) f)
      \<and> getProp (fieldDesc (fieldsOf (toMySQLSchema schema)) f) ''type'' = JStr ''Array'')"



text \<open>
  What makes the loop body assign into the query: a \<^verbatim>\<open>$ne\<close> operand on an Array field,
  and a \<^verbatim>\<open>$geoWithin.$polygon\<close> ring of at least three points whose first and last
  point differ. \<open>frameOK fs q\<close> says that no field of the query \<open>q\<close>, nor of the
  sub-queries of its \<^verbatim>\<open>$or\<close> and \<^verbatim>\<open>$and\<close> lists, is of these, for the field map \<open>fs\<close>.
\<close>

definition rewritesNe :: "(string \<times> json) list \<Rightarrow> string \<Rightarrow> json \<Rightarrow> bool" where
  "rewritesNe fs f v =
     (truthy (fieldDesc fs f) \<and> getProp (fieldDesc fs f) ''type'' = JStr ''Array''
      \<and> getProp v ''$ne'' \<noteq> JUndefined)"

definition openRing :: "json \<Rightarrow> bool" where
  "openRing v =
     (case getProp (getProp v ''$geoWithin'') ''$polygon'' of
        JArr pts \<Rightarrow>
          3 \<le> length pts \<and> \<not> nullish (hd pts) \<and> \<not> nullish (last pts)
          \<and> (strictNe (getProp (hd pts) ''latitude'') (getProp (last pts) ''latitude'')
               \<or> strictNe (getProp (hd pts) ''longitude'') (getProp (last pts) ''longitude''))
      | _ \<Rightarrow> False)"


lemma jsize_entry: "(k, v) \<in> set (entries q) \<Longrightarrow> isArray v \<Longrightarrow> jsize v < jsize q"
proof (cases q)
  case (JObj kvs)
  assume "(k, v) \<in> set (entries q)"
  with JObj have "(k, v) \<in> set kvs" by (simp add: ownProps_set)
  with JObj jsize_member [of k v kvs] show ?thesis by simp
next
  case (JArr xs)
  assume "(k, v) \<in> set (entries q)"
  with JArr have "v \<in> set xs" by (auto dest: set_zip_rightD)
  with JArr jsize_element [of v xs] show ?thesis by simp
qed (auto dest!: set_zip_rightD)

function frameOK :: "(string \<times> json) list \<Rightarrow> json \<Rightarrow> bool" where
  "frameOK fs q =
     (\<forall>(k, v) \<in> set (entries q).
        \<not> rewritesNe fs k v \<and> \<not> openRing v
        \<and> (case v of
             JArr subs \<Rightarrow> (k = ''$or'' \<or> k = ''$and'') \<longrightarrow> (\<forall>sub \<in> set subs. frameOK fs sub)
           | _ \<Rightarrow> True))"
  by pat_completeness auto
termination
proof (relation "measure (\<lambda>(fs, q). jsize q)")
  fix fs q x k v subs sub
  assume "x \<in> set (entries q)" "(k, v) = x" "v = JArr subs" "sub \<in> set subs"
  then have "jsize v < jsize q" "jsize sub < jsize v"
    using jsize_entry [of k v q] jsize_element [of sub subs] by auto
  then show "((fs, sub), (fs, q)) \<in> measure (\<lambda>(fs, q). jsize q)" by simp
qed simp

declare frameOK.simps [simp del]

subsection \<open>Placeholder tokens of a text\<close>

text \<open>
  A placeholder token of a text is a dollar sign followed by a decimal numeral, taken as
  long as it goes, as in \<^verbatim>\<open>$12:name\<close>; its index is the number. \<open>tokenIndices\<close> gives
  the indices of the tokens of a text from left to right.
\<close>

function tokenIndices :: "string \<Rightarrow> nat list" where
  "tokenIndices [] = []"
| "tokenIndices (c # s) =
     (if c = CHR ''$'' \<and> takeWhile isDigit s \<noteq> []
      then readNat (takeWhile isDigit s) # tokenIndices (dropWhile isDigit s)
      else tokenIndices s)"
  by pat_completeness auto
termination
  by (relation "measure length") (auto simp: length_dropWhile_le less_Suc_eq_le)

text \<open>
  The \<^verbatim>\<open>$in\<close> branch for an Array field of strings computes the index of a token from
  the position of the element in the list, less one once a \<^verbatim>\<open>null\<close> has been seen; with
  a second \<^verbatim>\<open>null\<close> before an element the index is off. \<open>tokensOK fs q\<close> says that no
  name of a field of the query \<open>q\<close>, nor of the sub-queries of its \<^verbatim>\<open>$or\<close> and \<^verbatim>\<open>$and\<close>
  lists, holds a dot (the branch of dotted names writes the name and the value into the
  text), and that no \<^verbatim>\<open>$in\<close> list on such a field holds more than one \<^verbatim>\<open>null\<close>.
\<close>

definition stringArrayField :: "(string \<times> json) list \<Rightarrow> string \<Rightarrow> bool" where
  "stringArrayField fs f =
     (truthy (fieldDesc fs f) \<and> getProp (fieldDesc fs f) ''type'' = JStr ''Array''
      \<and> truthy (getProp (fieldDesc fs f) ''contents'')
      \<and> getProp (getProp (fieldDesc fs f) ''contents'') ''type'' = JStr ''String'')"

definition severalNulls :: "json \<Rightarrow> bool" where
  "severalNulls v = (1 < length (filter (\<lambda>x. x = JNull) (collectionValues (getProp v ''$in''))))"

function tokensOK :: "(string \<times> json) list \<Rightarrow> json \<Rightarrow> bool" where
  "tokensOK fs q =
     (\<forall>(k, v) \<in> set (entries q).
        CHR ''.'' \<notin> set k \<and> \<not> (stringArrayField fs k \<and> severalNulls v)
        \<and> (case v of
             JArr subs \<Rightarrow> (k = ''$or'' \<or> k = ''$and'') \<longrightarrow> (\<forall>sub \<in> set subs. tokensOK fs sub)
           | _ \<Rightarrow> True))"
  by pat_completeness auto
termination
proof (relation "measure (\<lambda>(fs, q). jsize q)")
  fix fs q x k v subs sub
  assume "x \<in> set (entries q)" "(k, v) = x" "v = JArr subs" "sub \<in> set subs"
  then have "jsize v < jsize q" "jsize sub < jsize v"
    using jsize_entry [of k v q] jsize_element [of sub subs] by auto
  then show "((fs, sub), (fs, q)) \<in> measure (\<lambda>(fs, q). jsize q)" by simp
qed simp

declare tokensOK.simps [simp del]

text \<open>
  Two notions of the proofs. A text is closed when the tokens of the text followed by
  any other text are its own tokens and then those of the other text. A state of the
  loop advances to a later one when the later state has the patterns and values of the
  first and then some more, the index has grown by the number of new values, every new
  pattern is closed, and the indices of the tokens of the new patterns are the indices
  from the first index up to the later one.
\<close>

definition closedText :: "string \<Rightarrow> bool" where
  "closedText x = (\<forall>s. tokenIndices (x @ s) = tokenIndices x @ tokenIndices s)"

definition advances :: "wstate \<Rightarrow> wstate \<Rightarrow> bool" where
  "advances st st' =
     (\<exists>ps vs. patterns st' = patterns st @ ps \<and> vals st' = vals st @ vs
        \<and> index st' = index st + length vs \<and> (\<forall>p \<in> set ps. closedText p)
        \<and> set (concat (map tokenIndices ps)) = {index st ..< index st + length vs})"

section \<open>Properties of the schema view transformer\<close>

lemma map_of_spread:
  "distinct (map fst b) \<Longrightarrow> map_of (spread a b) k = (case map_of b k of None \<Rightarrow> map_of a k | Some v \<Rightarrow> Some v)"
  unfolding spread_def
proof (induction b arbitrary: a)
  case Nil
  then show ?case by simp
next
  case (Cons p b)
  obtain k' v' where p: "p = (k', v')" by (cases p)
  from Cons.prems p have nin: "k' \<notin> fst ` set b" and d: "distinct (map fst b)" by auto
  from nin have none: "map_of b k' = None" by (simp add: map_of_eq_None_iff)
  show ?case
    using Cons.IH [OF d, of "AList.update k' v' a"] none p
    by (auto simp: update_conv' split: option.splits)
qed

lemma fst_set_delete: "fst ` set (AList.delete k xs) = fst ` set xs - {k}"
  by (induction xs) auto

text \<open>
  C6. On a schema with a field map (or one that is not the \<^verbatim>\<open>_User\<close> class),
  \<^verbatim>\<open>toParseSchema\<close> returns; without a \<^verbatim>\<open>classLevelPermissions\<close> key every one of the six
  actions gets the allow-all map \<^verbatim>\<open>{'*': true}\<close>; with one, every action it supplies gets
  exactly the supplied map and every other action the empty map; and the returned schema
  has no \<^verbatim>\<open>_wperm\<close> and no \<^verbatim>\<open>_rperm\<close> field and, for the \<^verbatim>\<open>_User\<close> class, no
  \<^verbatim>\<open>_hashed_password\<close> field.
\<close>

theorem toParseSchema_permissions_and_fields:
  assumes ok: "schemaFields s \<noteq> None \<or> className s \<noteq> ''_User''"
  shows "\<exists>r. toParseSchema s = Inr r
    \<and> (classLevelPermissions s = None \<longrightarrow>
         (\<forall>a \<in> set clpActions. clpOf r a = Some (JObj [(''*'', JBool True)])))
    \<and> (\<forall>c. classLevelPermissions s = Some c \<and> distinct (map fst c) \<longrightarrow>
         (\<forall>a \<in> set clpActions.
            clpOf r a = Some (case map_of c a of None \<Rightarrow> JObj [] | Some m \<Rightarrow> m)))
    \<and> ''_wperm'' \<notin> fieldNames r \<and> ''_rperm'' \<notin> fieldNames r
    \<and> (className s = ''_User'' \<longrightarrow> ''_hashed_password'' \<notin> fieldNames r)"
proof -
  define fs1 where "fs1 = (if className s = ''_User''
                   then map_option (AList.delete ''_hashed_password'') (schemaFields s)
                   else schemaFields s)"
  define fs2 where "fs2 = map_option (\<lambda>fs. AList.delete ''_rperm'' (AList.delete ''_wperm'' fs)) fs1"
  define clps where "clps = (case classLevelPermissions s of
                      None \<Rightarrow> defaultCLPS
                    | Some c \<Rightarrow> spread emptyCLPS c)"
  define r where "r = \<lparr>className = className s, schemaFields = fs2, classLevelPermissions = Some clps\<rparr>"
  from ok have res: "toParseSchema s = Inr r"
    by (auto simp: toParseSchema_def r_def clps_def fs2_def fs1_def Let_def)
  have allow: "\<forall>a \<in> set clpActions. clpOf r a = Some (JObj [(''*'', JBool True)])"
    if "classLevelPermissions s = None"
    using that by (simp add: clpOf_def r_def clps_def defaultCLPS_def clpActions_def)
  have merge: "\<forall>a \<in> set clpActions.
            clpOf r a = Some (case map_of c a of None \<Rightarrow> JObj [] | Some m \<Rightarrow> m)"
    if c: "classLevelPermissions s = Some c" and d: "distinct (map fst c)" for c
  proof
    fix a assume a: "a \<in> set clpActions"
    have "clpOf r a = map_of (spread emptyCLPS c) a"
      using c by (simp add: clpOf_def r_def clps_def)
    also have "\<dots> = (case map_of c a of None \<Rightarrow> map_of emptyCLPS a | Some v \<Rightarrow> Some v)"
      by (rule map_of_spread [OF d])
    also have "\<dots> = Some (case map_of c a of None \<Rightarrow> JObj [] | Some m \<Rightarrow> m)"
      using a by (auto simp: emptyCLPS_def clpActions_def split: option.splits)
    finally show "clpOf r a = Some (case map_of c a of None \<Rightarrow> JObj [] | Some m \<Rightarrow> m)" .
  qed
  have perm: "''_wperm'' \<notin> fieldNames r \<and> ''_rperm'' \<notin> fieldNames r"
    by (cases "fs1") (auto simp: fieldNames_def r_def fs2_def fst_set_delete)
  have pw: "''_hashed_password'' \<notin> fieldNames r" if "className s = ''_User''"
    using that by (cases "schemaFields s") (auto simp: fieldNames_def r_def fs2_def fs1_def fst_set_delete)
  show ?thesis
  proof (intro exI [of _ r] conjI impI allI)
    show "toParseSchema s = Inr r" by (rule res)
  qed (use allow merge perm pw in simp_all)
qed

theorem toParseSchema_permissions_and_fields_witness:
  "toParseSchema \<lparr>className = ''_User'',
       schemaFields = Some [(''name'', JObj [(''type'', JStr ''String'')]),
                      (''_hashed_password'', JObj [(''type'', JStr ''String'')]),
                      (''_wperm'', JObj [(''type'', JStr ''Array'')])],
       classLevelPermissions = Some [(''find'', JObj [(''role:admin'', JBool True)])]\<rparr>
   = Inr \<lparr>className = ''_User'',
       schemaFields = Some [(''name'', JObj [(''type'', JStr ''String'')])],
       classLevelPermissions = Some
         [(''find'', JObj [(''role:admin'', JBool True)]), (''get'', JObj []),
          (''create'', JObj []), (''update'', JObj []), (''delete'', JObj []),
          (''addField'', JObj [])]\<rparr>
   \<and> (\<exists>r. toParseSchema \<lparr>className = ''_User'',
       schemaFields = Some [(''name'', JObj [(''type'', JStr ''String'')]),
                      (''_hashed_password'', JObj [(''type'', JStr ''String'')]),
                      (''_wperm'', JObj [(''type'', JStr ''Array'')])],
       classLevelPermissions = Some [(''find'', JObj [(''role:admin'', JBool True)])]\<rparr> = Inr r
      \<and> clpOf r ''find'' = Some (JObj [(''role:admin'', JBool True)])
      \<and> clpOf r ''get'' = Some (JObj [])
      \<and> ''_hashed_password'' \<notin> fieldNames r)"
proof -
  let ?s = "\<lparr>className = ''_User'',
       schemaFields = Some [(''name'', JObj [(''type'', JStr ''String'')]),
                      (''_hashed_password'', JObj [(''type'', JStr ''String'')]),
                      (''_wperm'', JObj [(''type'', JStr ''Array'')])],
       classLevelPermissions = Some [(''find'', JObj [(''role:admin'', JBool True)])]\<rparr>"
  have h: "schemaFields ?s \<noteq> None \<or> className ?s \<noteq> ''_User''" by simp
  from toParseSchema_permissions_and_fields [OF h]
  obtain r where r: "toParseSchema ?s = Inr r"
    and m: "\<forall>c. classLevelPermissions ?s = Some c \<and> distinct (map fst c) \<longrightarrow>
         (\<forall>a \<in> set clpActions.
            clpOf r a = Some (case map_of c a of None \<Rightarrow> JObj [] | Some m \<Rightarrow> m))"
    and pw: "className ?s = ''_User'' \<longrightarrow> ''_hashed_password'' \<notin> fieldNames r"
    by blast
  from m have m': "\<forall>a \<in> set clpActions.
      clpOf r a = Some (case map_of [(''find'', JObj [(''role:admin'', JBool True)])] a of
                          None \<Rightarrow> JObj [] | Some m \<Rightarrow> m)"
    by simp
  have f: "clpOf r ''find'' = Some (JObj [(''role:admin'', JBool True)])"
    using m' by (simp add: clpActions_def)
  have g: "clpOf r ''get'' = Some (JObj [])"
    using m' by (simp add: clpActions_def)
  have e: "toParseSchema ?s = Inr \<lparr>className = ''_User'',
       schemaFields = Some [(''name'', JObj [(''type'', JStr ''String'')])],
       classLevelPermissions = Some
         [(''find'', JObj [(''role:admin'', JBool True)]), (''get'', JObj []),
          (''create'', JObj []), (''update'', JObj []), (''delete'', JObj []),
          (''addField'', JObj [])]\<rparr>"
    by (simp add: toParseSchema_def spread_def emptyCLPS_def AList.delete_eq)
  from e r f g pw show ?thesis by auto
qed

section \<open>Properties of the predicate compiler\<close>

subsection \<open>Fields for which no branch of the loop body runs\<close>

lemma firstChain_operator:
  "CHR ''.'' \<notin> set f \<Longrightarrow> f \<noteq> ''$or'' \<Longrightarrow> f \<noteq> ''$and'' \<Longrightarrow>
   firstChain lib f (JObj kvs) sub st = (JObj kvs, Next st)"
  by (simp add: firstChain_def)

lemma buildWhereClause_single:
  "\<not> isArray v \<Longrightarrow> buildWhereClause lib schema (JObj [(f, v)]) i =
     (case whereField lib (fieldsOf (toMySQLSchema schema)) f v ([], Inr ([], [], 0))
             \<lparr>index = i, patterns = [], vals = [], sorts = []\<rparr> of
        (fv, Raise e) \<Rightarrow> (toMySQLSchema schema, JObj [(f, fv)], Inl e)
      | (fv, Continue st) \<Rightarrow> (toMySQLSchema schema, JObj [(f, fv)], finish st)
      | (fv, Next st) \<Rightarrow> (toMySQLSchema schema, JObj [(f, fv)], finish st))"
  by (cases v)
     (simp_all add: buildWhereClause.simps bindE_def ownProps_single putProps_single
        split: prod.splits flow.splits)











subsection \<open>Comparisons with a falsy operand\<close>



subsection \<open>Empty lists of \<^verbatim>\<open>$in\<close> and \<^verbatim>\<open>$nin\<close>\<close>

lemma whereField_empty_nin:
  assumes "CHR ''.'' \<notin> set f" "f \<noteq> ''$or''" "f \<noteq> ''$and''"
  shows "whereField lib fs f (JObj [(''$nin'', JArr [])]) sub st =
     (JObj [(''$nin'', JArr [])],
      Raise (ParseError OPERATION_FORBIDDEN ''MySQL does not support this query type yet [object Object]''))"
  using assms
  by (simp add: whereField_def firstChain_operator stepNe_def stepEq_def stepIn_def stepAll_def
      stepExists_def stepText_def stepNearSphere_def stepWithin_def stepGeoWithin_def stepRegex_def
      stepPointer_def stepDate_def stepGeoPoint_def ParseToMySQLComparator_def createConstraint_def
      flatMapId_def bindE_def Let_def)

lemma whereField_empty_in:
  assumes "CHR ''.'' \<notin> set f" "f \<noteq> ''$or''" "f \<noteq> ''$and''"
     "\<not> (truthy (fieldDesc fs f) \<and> getProp (fieldDesc fs f) ''type'' = JStr ''Array'')"
  shows "whereField lib fs f (JObj [(''$in'', JArr [])]) sub st =
     (JObj [(''$in'', JArr [])], Next (emit (bq (nm (index st)) @ '' IS NULL'') [JStr f] 1 st))"
  using assms
  by (auto simp add: whereField_def firstChain_operator stepNe_def stepEq_def stepIn_def stepAll_def
      stepExists_def stepText_def stepNearSphere_def stepWithin_def stepGeoWithin_def stepRegex_def
      stepPointer_def stepDate_def stepGeoPoint_def ParseToMySQLComparator_def createConstraint_def
      flatMapId_def bindE_def Let_def emit_def)

text \<open>
  C3. On a Number field \<^verbatim>\<open>score\<close>, the query \<^verbatim>\<open>{score: {$in: []}}\<close> compiles to
  \<^verbatim>\<open>`$i:name` IS NULL\<close> with the field name bound; the query \<^verbatim>\<open>{score: {$nin: []}}\<close>
  adds no constraint, and the call then raises the unsupported-query error instead of
  returning.
\<close>

theorem empty_nin_alone_raises:
  "snd (snd (buildWhereClause lib
       \<lparr>className = ''Game'', schemaFields = Some [(''score'', JObj [(''type'', JStr ''Number'')])],
          classLevelPermissions = None\<rparr>
       (JObj [(''score'', JObj [(''$in'', JArr [])])]) i)) =
     Inr \<lparr>pattern = bq (nm i) @ '' IS NULL'', boundValues = [JStr ''score''], sortExprs = []\<rparr>
   \<and> createConstraint lib False ''score'' [] True st = st
   \<and> snd (snd (buildWhereClause lib
       \<lparr>className = ''Game'', schemaFields = Some [(''score'', JObj [(''type'', JStr ''Number'')])],
          classLevelPermissions = None\<rparr>
       (JObj [(''score'', JObj [(''$nin'', JArr [])])]) i)) =
     Inl (ParseError OPERATION_FORBIDDEN ''MySQL does not support this query type yet [object Object]'')"
proof -
  have nin: "whereField lib fs ''score'' (JObj [(''$nin'', JArr [])]) sub st =
     (JObj [(''$nin'', JArr [])],
      Raise (ParseError OPERATION_FORBIDDEN ''MySQL does not support this query type yet [object Object]''))"
    for fs sub st
    by (rule whereField_empty_nin) simp_all
  let ?s = "\<lparr>className = ''Game'', schemaFields = Some [(''score'', JObj [(''type'', JStr ''Number'')])],
          classLevelPermissions = None\<rparr>"
  have d: "\<not> (truthy (fieldDesc (fieldsOf (toMySQLSchema ?s)) ''score'')
       \<and> getProp (fieldDesc (fieldsOf (toMySQLSchema ?s)) ''score'') ''type'' = JStr ''Array'')"
    by (simp add: toMySQLSchema_def fieldsOf_def fieldDesc_def inheritedNames_def)
  have "in": "whereField lib (fieldsOf (toMySQLSchema ?s)) ''score'' (JObj [(''$in'', JArr [])]) sub st =
     (JObj [(''$in'', JArr [])], Next (emit (bq (nm (index st)) @ '' IS NULL'') [JStr ''score''] 1 st))"
    for sub st
    by (rule whereField_empty_in [OF _ _ _ d]) simp_all
  show ?thesis
    by (simp add: buildWhereClause_single nin "in" finish_def emit_def bindE_def transformValue_def
        createConstraint_def)
qed

subsection \<open>Dotted field names\<close>

lemma whereField_dotted:
  assumes dot: "CHR ''.'' \<in> set f"
  shows "whereField lib fs f (JStr x) sub st =
     (JStr x, Next (st\<lparr>patterns := patterns st @
                 [dottedName (splitOn CHR ''.'' f) @ '' = '' @ sq x]\<rparr>))"
proof -
  have fc: "firstChain lib f (JStr x) sub st =
     (JStr x, Next (st\<lparr>patterns := patterns st @
                 [dottedName (splitOn CHR ''.'' f) @ '' = '' @ sq x]\<rparr>))"
    using dot by (simp add: firstChain_def)
  show ?thesis
    unfolding whereField_def Let_def fc
    by (simp add: stepNe_def stepEq_def stepIn_def stepAll_def stepExists_def stepText_def
        stepNearSphere_def stepWithin_def stepGeoWithin_def stepRegex_def stepPointer_def stepDate_def
        stepGeoPoint_def ParseToMySQLComparator_def bindE_def)
qed

lemma splitOn_prefix: "c \<notin> set a \<Longrightarrow> splitOn c (a @ c # b) = a # splitOn c b"
  by (induction a) auto

lemma splitOn_not_Nil: "splitOn c s \<noteq> []"
  by (induction s) (auto split: list.splits)

lemma splitOn_concat: "splitOn c s = w # ws \<Longrightarrow> w @ concat (map ((#) c) ws) = s"
proof (induction s arbitrary: w ws)
  case Nil
  then show ?case by simp
next
  case (Cons x s)
  obtain w' ws' where sp: "splitOn c s = w' # ws'"
    using splitOn_not_Nil [of c s] by (cases "splitOn c s") auto
  show ?case
  proof (cases "x = c")
    case True
    with Cons.prems have "w = []" "ws = splitOn c s" by auto
    with Cons.IH [OF sp] sp True show ?thesis by simp
  next
    case False
    with Cons.prems sp have "w = x # w'" "ws = ws'" by auto
    with Cons.IH [OF sp] show ?thesis by simp
  qed
qed

lemma dottedName_path:
  assumes "CHR ''.'' \<notin> set a"
  shows "dottedName (splitOn CHR ''.'' (a @ CHR ''.'' # b)) = bq a @ ''->>'' @ sq (''$.'' @ b)"
proof -
  obtain w ws where sp: "splitOn CHR ''.'' b = w # ws"
    using splitOn_not_Nil [of "CHR ''.''" b] by (cases "splitOn CHR ''.'' b") auto
  from splitOn_concat [OF sp] have "w @ concat (map ((#) CHR ''.'') ws) = b" .
  then show ?thesis
    by (simp add: splitOn_prefix [OF assms] sp sq_def)
qed

lemma dotted_field_body:
  assumes a: "CHR ''.'' \<notin> set a"
  shows "whereField lib fs (a @ CHR ''.'' # b) (JStr x) sub st =
     (JStr x, Next (st\<lparr>patterns := patterns st @
                 [bq a @ ''->>'' @ sq (''$.'' @ b) @ '' = '' @ sq x]\<rparr>))"
proof -
  have dot: "CHR ''.'' \<in> set (a @ CHR ''.'' # b)" by simp
  show ?thesis
    using whereField_dotted [OF dot, of lib fs x sub st] by (simp add: dottedName_path [OF a])
qed

lemma dotted_field_single:
  assumes a: "CHR ''.'' \<notin> set a"
  shows "snd (snd (buildWhereClause lib schema (JObj [(a @ CHR ''.'' # b, JStr x)]) i)) =
     Inr \<lparr>pattern = bq a @ ''->>'' @ sq (''$.'' @ b) @ '' = '' @ sq x,
          boundValues = [], sortExprs = []\<rparr>"
  by (simp add: dotted_field_body [OF a] buildWhereClause_single finish_def bindE_def)

text \<open>
  C5. The query \<^verbatim>\<open>{"a.b": "x"}\<close> compiles, from any index, to the text
  \<^verbatim>\<open>`a`->>'$.b' = 'x'\<close>: the value is written into the text between quotes, the text
  holds no placeholder token, and no value is bound. A value that holds a quote ends the
  quoted text: the value \<^verbatim>\<open>x' OR '1'='1\<close> compiles to \<^verbatim>\<open>`a`->>'$.b' = 'x' OR '1'='1'\<close>.
\<close>

theorem dotted_field_inlines_value:
  "snd (snd (buildWhereClause lib schema (JObj [(''a.b'', JStr ''x'')]) i)) =
     Inr \<lparr>pattern = [btick, CHR ''a'', btick] @ ''->>'' @ [squote] @ ''$.b'' @ [squote] @ '' = ''
                      @ [squote] @ ''x'' @ [squote],
          boundValues = [], sortExprs = []\<rparr>
   \<and> tokenIndices ([btick, CHR ''a'', btick] @ ''->>'' @ [squote] @ ''$.b'' @ [squote] @ '' = ''
                      @ [squote] @ ''x'' @ [squote]) = []
   \<and> snd (snd (buildWhereClause lib schema
        (JObj [(''a.b'', JStr (''x'' @ [squote] @ '' OR '' @ [squote] @ ''1'' @ [squote] @ ''=''
                                 @ [squote] @ ''1''))]) i)) =
     Inr \<lparr>pattern = [btick, CHR ''a'', btick] @ ''->>'' @ [squote] @ ''$.b'' @ [squote] @ '' = ''
                      @ [squote] @ ''x'' @ [squote] @ '' OR '' @ [squote] @ ''1'' @ [squote] @ ''=''
                      @ [squote] @ ''1'' @ [squote],
          boundValues = [], sortExprs = []\<rparr>"
proof -
  have h: "CHR ''.'' \<notin> set ''a''" by simp
  have t: "tokenIndices ([btick, CHR ''a'', btick] @ ''->>'' @ [squote] @ ''$.b'' @ [squote] @ '' = ''
                      @ [squote] @ ''x'' @ [squote]) = []"
    by code_simp
  from dotted_field_single [OF h, where lib = lib and schema = schema and b = "''b''"
      and x = "''x''" and i = i]
    dotted_field_single [OF h, where lib = lib and schema = schema and b = "''b''" and i = i
      and x = "''x'' @ [squote] @ '' OR '' @ [squote] @ ''1'' @ [squote] @ ''='' @ [squote] @ ''1''"] t
  show ?thesis by (simp add: bq_def sq_def)
qed

subsection \<open>What a call leaves of the schema and of the query\<close>

text \<open>
  \<^verbatim>\<open>toMySQLSchema\<close> changes nothing of a schema it has been applied to, and a call
  returns with the schema as \<^verbatim>\<open>toMySQLSchema\<close> leaves it. Every step of the loop body
  but the two that assign into the value of the field returns the value it is given.
\<close>

lemma toMySQLSchema_idem: "toMySQLSchema (toMySQLSchema s) = toMySQLSchema s"
  by (simp add: toMySQLSchema_def Let_def update_triv update_conv')

lemma setProp_same: "getProp v k = x \<Longrightarrow> x \<noteq> JUndefined \<Longrightarrow> setProp v k x = v"
  by (cases v) (auto simp: update_triv split: option.splits)

lemma fst_firstChain:
  "(\<And>subs. v = JArr subs \<Longrightarrow> f = ''$or'' \<or> f = ''$and'' \<Longrightarrow> fst sub = subs)
   \<Longrightarrow> fst (firstChain lib f v sub st) = v"
  by (cases sub) (auto simp: firstChain_def Let_def split: json.splits sum.splits prod.splits)

lemma fst_stepNe: "\<not> (b \<and> getProp v ''$ne'' \<noteq> JUndefined) \<Longrightarrow> fst (stepNe lib b f v st) = v"
  by (auto simp: stepNe_def Let_def)

lemma fst_stepGeoWithin: "\<not> openRing v \<Longrightarrow> fst (stepGeoWithin lib f v st) = v"
proof -
  assume a: "\<not> openRing v"
  show ?thesis
  proof (cases "getProp (getProp v ''$geoWithin'') ''$polygon''")
    case (JArr pts)
    have g: "getProp v ''$geoWithin'' \<noteq> JUndefined" using JArr by (cases "getProp v ''$geoWithin''") auto
    have "setProp (getProp v ''$geoWithin'') ''$polygon'' (JArr pts) = getProp v ''$geoWithin''"
      by (rule setProp_same [OF JArr]) simp
    moreover have "setProp v ''$geoWithin'' (getProp v ''$geoWithin'') = v"
      by (rule setProp_same [OF refl g])
    ultimately show ?thesis
      using a JArr by (auto simp: stepGeoWithin_def openRing_def Let_def)
  qed (auto simp: stepGeoWithin_def Let_def)
qed


lemma fst_whereField:
  assumes sub: "\<And>subs. v = JArr subs \<Longrightarrow> f = ''$or'' \<or> f = ''$and'' \<Longrightarrow> fst sub = subs"
    and ne: "\<not> rewritesNe fs f v" and ring: "\<not> openRing v"
  shows "fst (whereField lib fs f v sub st) = v"
proof -
  have fc: "fv = v" if "firstChain lib f v sub st = (fv, r)" for fv r
    using fst_firstChain [of v f sub lib st, OF sub] that by simp
  have n: "fv = v" if "stepNe lib (truthy (fieldDesc fs f) \<and> getProp (fieldDesc fs f) ''type'' = JStr ''Array'') f v st' = (fv, r)" for fv r st'
    using fst_stepNe [where b = "truthy (fieldDesc fs f) \<and> getProp (fieldDesc fs f) ''type'' = JStr ''Array''"
        and v = v and f = f and st = st' and lib = lib] ne that
    by (simp add: rewritesNe_def)
  have g: "fv = v" if "stepGeoWithin lib f v st' = (fv, r)" for fv r st'
    using fst_stepGeoWithin [OF ring, of lib f st'] that by simp
  show ?thesis
    unfolding whereField_def Let_def
    by (auto split: prod.splits flow.splits sum.splits dest!: fc n g)
qed

lemma withEntries_entries: "withEntries q (entries q) = q"
  by (cases q) (simp_all add: map_snd_zip putProps_ownProps)

lemma frame:
  shows "frameOK (fieldsOf (toMySQLSchema schema)) q \<Longrightarrow> fst (snd (buildWhereClause lib schema q i)) = q"
    and "toMySQLSchema s = s \<Longrightarrow>
         (\<forall>(k, v) \<in> set kvs. \<not> rewritesNe (fieldsOf s) k v \<and> \<not> openRing v
            \<and> (case v of
                 JArr subs \<Rightarrow> (k = ''$or'' \<or> k = ''$and'') \<longrightarrow> (\<forall>sub \<in> set subs. frameOK (fieldsOf s) sub)
               | _ \<Rightarrow> True)) \<Longrightarrow>
         fst (whereFields lib s kvs st) = kvs"
    and "toMySQLSchema s = s \<Longrightarrow> (\<forall>sub \<in> set subs. frameOK (fieldsOf s) sub) \<Longrightarrow>
         fst (whereClauses lib s subs j) = subs"
proof (induction lib schema q i and lib s kvs st and lib s subs j
       rule: buildWhereClause_whereFields_whereClauses.induct)
  case (1 lib schema query i)
  from "1.prems" have c: "\<forall>(k, v) \<in> set (entries query).
       \<not> rewritesNe (fieldsOf (toMySQLSchema schema)) k v \<and> \<not> openRing v
            \<and> (case v of
                 JArr subs \<Rightarrow> (k = ''$or'' \<or> k = ''$and'') \<longrightarrow>
                    (\<forall>sub \<in> set subs. frameOK (fieldsOf (toMySQLSchema schema)) sub)
               | _ \<Rightarrow> True)"
    by (subst (asm) frameOK.simps) simp
  from "1.IH" [OF toMySQLSchema_idem c]
  show ?case
    by (auto simp: buildWhereClause.simps withEntries_entries split: prod.splits)
next
  case (2 lib schema st)
  then show ?case by simp
next
  case (3 lib schema fieldName fieldValue rest st)
  let ?sub = "(case fieldValue of
             JArr subs \<Rightarrow>
               if fieldName = ''$or'' \<or> fieldName = ''$and''
               then whereClauses lib schema subs (index st)
               else ([], Inr ([], [], 0))
             | _ \<Rightarrow> ([], Inr ([], [], 0)))"
  from "3.prems"(2) have ne: "\<not> rewritesNe (fieldsOf schema) fieldName fieldValue"
    and ring: "\<not> openRing fieldValue"
    and subs: "\<And>subs. fieldValue = JArr subs \<Longrightarrow> fieldName = ''$or'' \<or> fieldName = ''$and'' \<Longrightarrow>
                 \<forall>sub \<in> set subs. frameOK (fieldsOf schema) sub"
    and rest: "\<forall>(k, v) \<in> set rest. \<not> rewritesNe (fieldsOf schema) k v \<and> \<not> openRing v
            \<and> (case v of
                 JArr subs \<Rightarrow> (k = ''$or'' \<or> k = ''$and'') \<longrightarrow> (\<forall>sub \<in> set subs. frameOK (fieldsOf schema) sub)
               | _ \<Rightarrow> True)"
    by auto
  have s: "fst ?sub = subs" if "fieldValue = JArr subs" "fieldName = ''$or'' \<or> fieldName = ''$and''" for subs
    using "3.IH"(1) [OF that "3.prems"(1) subs [OF that]] that by simp
  obtain fv r where w: "whereField lib (fieldsOf schema) fieldName fieldValue ?sub st = (fv, r)"
    by (cases "whereField lib (fieldsOf schema) fieldName fieldValue ?sub st")
  from fst_whereField [of fieldValue fieldName ?sub "fieldsOf schema" lib st, OF s ne ring] w
  have fv: "fv = fieldValue" by simp
  show ?case
  proof (cases r)
    case (Raise e)
    with w fv show ?thesis by simp
  next
    case (Continue st')
    from "3.IH"(2) [OF w [symmetric] Continue "3.prems"(1) rest] w fv Continue
    show ?thesis by (auto split: prod.splits)
  next
    case (Next st')
    from "3.IH"(3) [OF w [symmetric] Next "3.prems"(1) rest] w fv Next
    show ?thesis by (auto split: prod.splits)
  qed
next
  case (4 lib schema i)
  then show ?case by simp
next
  case (5 lib schema subQuery subs i)
  from "5.prems" have f: "frameOK (fieldsOf (toMySQLSchema schema)) subQuery"
    and r: "\<forall>sub \<in> set subs. frameOK (fieldsOf schema) sub"
    by simp_all
  obtain sch q' res where b: "buildWhereClause lib schema subQuery i = (sch, q', res)"
    by (cases "buildWhereClause lib schema subQuery i")
  from "5.IH"(1) [OF f] b have q': "q' = subQuery" by simp
  show ?case
  proof (cases res)
    case (Inl e)
    with b q' show ?thesis by simp
  next
    case (Inr c)
    from "5.IH"(2) [OF b [symmetric] refl Inr "5.prems"(1) r] b q' Inr
    show ?thesis by (auto split: prod.splits sum.splits)
  qed
qed

lemma fst_buildWhereClause: "fst (buildWhereClause lib schema q i) = toMySQLSchema schema"
  by (simp add: buildWhereClause.simps split: prod.splits)

lemma numText_1: "numText plainSdk 1 = ''1''"
  by code_simp

subsection \<open>Placeholder tokens and bound values\<close>

text \<open>
  The numeral of an index reads back as the index, so the tokens of a text built from
  tokens \<open>nm i\<close> and from texts without a dollar sign are the indices \<open>i\<close>, in the order of
  the text.
\<close>

lemma tokenIndices_plain: "CHR ''$'' \<notin> set a \<Longrightarrow> tokenIndices (a @ s) = tokenIndices s"
  by (induction a) auto

lemma tokenIndices_nm: "tokenIndices (nm i @ s) = i # tokenIndices s"
proof -
  have n: "\<not> isDigit CHR '':''" by (simp add: isDigit_def)
  have t: "takeWhile isDigit (showNat i @ '':name'' @ s) = showNat i"
    using showNat_digits [of i] n by (simp add: takeWhile_append2 del: showNat.simps)
  have d: "dropWhile isDigit (showNat i @ '':name'' @ s) = '':name'' @ s"
    using showNat_digits [of i] n by (simp add: dropWhile_append2)
  have "tokenIndices ('':name'' @ s) = tokenIndices s"
    by (rule tokenIndices_plain) simp
  with t d show ?thesis
    by (simp add: nm_def showNat_not_Nil readNat_showNat)
qed

lemma closedText_plain: "CHR ''$'' \<notin> set a \<Longrightarrow> closedText a"
  using tokenIndices_plain [of a] tokenIndices_plain [of a "[]"] by (simp add: closedText_def)

lemma closedText_nm: "closedText (nm i)"
  using tokenIndices_nm [of i] tokenIndices_nm [of i "[]"] by (simp add: closedText_def)

lemma closedText_append: "closedText a \<Longrightarrow> closedText b \<Longrightarrow> closedText (a @ b)"
  by (simp add: closedText_def)

lemma tokenIndices_append: "closedText a \<Longrightarrow> tokenIndices (a @ b) = tokenIndices a @ tokenIndices b"
  by (simp add: closedText_def)

lemma closedText_Cons: "c \<noteq> CHR ''$'' \<Longrightarrow> closedText (c # b) = closedText b"
  by (simp add: closedText_def)

lemma closedText_Nil: "closedText []"
  by (simp add: closedText_def)

lemma closedText_bq: "closedText a \<Longrightarrow> closedText (bq a)"
  by (simp add: bq_def closedText_Cons closedText_append closedText_Nil)

lemma closedText_sq: "closedText a \<Longrightarrow> closedText (sq a)"
  by (simp add: sq_def closedText_Cons closedText_append closedText_Nil)

lemma tokenIndices_bq: "closedText a \<Longrightarrow> tokenIndices (bq a) = tokenIndices a"
  by (simp add: bq_def tokenIndices_append)

lemma tokenIndices_sq: "closedText a \<Longrightarrow> tokenIndices (sq a) = tokenIndices a"
  by (simp add: sq_def tokenIndices_append)

lemma closedText_join:
  "closedText sep \<Longrightarrow> \<forall>p \<in> set ps. closedText p \<Longrightarrow> closedText (join sep ps)"
  by (induction sep ps rule: join.induct) (simp_all add: closedText_Nil closedText_append)

lemma tokenIndices_join:
  "closedText sep \<Longrightarrow> tokenIndices sep = [] \<Longrightarrow> \<forall>p \<in> set ps. closedText p \<Longrightarrow>
   tokenIndices (join sep ps) = concat (map tokenIndices ps)"
  by (induction sep ps rule: join.induct) (simp_all add: tokenIndices_append closedText_join)

lemma tokenIndices_nm1: "tokenIndices (nm i) = [i]"
  using tokenIndices_nm [of i "[]"] by simp

lemmas tok = tokenIndices_append tokenIndices_bq tokenIndices_sq closedText_bq closedText_sq
  closedText_nm tokenIndices_nm1 closedText_append closedText_Cons closedText_Nil

lemma advances_refl: "advances st st"
  by (simp add: advances_def)

lemma advances_trans:
  assumes "advances a b" "advances b c"
  shows "advances a c"
proof -
  from assms(1) obtain ps vs where 1: "patterns b = patterns a @ ps" "vals b = vals a @ vs"
    "index b = index a + length vs" "\<forall>p \<in> set ps. closedText p"
    "set (concat (map tokenIndices ps)) = {index a ..< index a + length vs}"
    unfolding advances_def by blast
  from assms(2) obtain qs ws where 2: "patterns c = patterns b @ qs" "vals c = vals b @ ws"
    "index c = index b + length ws" "\<forall>p \<in> set qs. closedText p"
    "set (concat (map tokenIndices qs)) = {index b ..< index b + length ws}"
    unfolding advances_def by blast
  have "{index a ..< index a + length vs} \<union> {index a + length vs ..< index a + length vs + length ws}
      = {index a ..< index a + length (vs @ ws)}"
    by auto
  with 1 2 show ?thesis
    unfolding advances_def
    by (intro exI [of _ "ps @ qs"] exI [of _ "vs @ ws"]) (auto simp: add.assoc)
qed

lemma advances_push:
  assumes "closedText p" "set (tokenIndices p) = {index st ..< index st + length vs}"
  shows "advances st (st\<lparr>index := index st + length vs, patterns := patterns st @ [p],
                          vals := vals st @ vs\<rparr>)"
  unfolding advances_def using assms
  by (intro exI [of _ "[p]"] exI [of _ vs]) simp

lemma advances_emit:
  assumes "closedText p" "set (tokenIndices p) = {index st ..< index st + length vs}" "n = length vs"
  shows "advances st (emit p vs n st)"
  using advances_push [OF assms(1,2)] assms(3) by (simp add: emit_def)

lemma advances_sorts: "advances st (st\<lparr>sorts := x\<rparr>)"
  by (simp add: advances_def)

lemma advances_stepEq: "advances st (stepEq f v st)"
  unfolding stepEq_def Let_def
  by (auto intro!: advances_emit advances_refl simp: tok)

lemma advances_stepAll: "advances st (stepAll lib b f v st)"
  unfolding stepAll_def Let_def
  by (auto intro!: advances_emit advances_refl simp: tok)

lemma advances_stepExists: "advances st (stepExists f v st)"
  unfolding stepExists_def Let_def
  by (auto intro!: advances_emit advances_refl simp: tok)

lemma advances_stepPointer: "advances st (stepPointer lib b f v st)"
  unfolding stepPointer_def Let_def
  by (auto intro!: advances_emit advances_refl simp: tok)

lemma advances_stepGeoPoint: "advances st (stepGeoPoint f v st)"
  unfolding stepGeoPoint_def Let_def
  by (auto intro!: advances_emit advances_refl simp: tok)

lemma advances_stepText: "stepText f v st = Inr st' \<Longrightarrow> advances st st'"
  unfolding stepText_def Let_def
  by (auto intro!: advances_emit advances_refl simp: tok split: if_splits)

lemma advances_stepDate: "stepDate lib f v st = Inr st' \<Longrightarrow> advances st st'"
  unfolding stepDate_def Let_def bindE_def
  by (auto intro!: advances_emit advances_refl simp: tok split: if_splits sum.splits)

lemma advances_stepRegex: "stepRegex f v st = Inr st' \<Longrightarrow> advances st st'"
  unfolding stepRegex_def Let_def bindE_def
  by (auto intro!: advances_emit advances_refl simp: tok split: if_splits sum.splits)

lemma closedText_coversExpr: "closedText (coversExpr i)"
  by (simp add: coversExpr_def tok)

lemma tokenIndices_coversExpr: "tokenIndices (coversExpr i) = [i, i + 1]"
  by (simp add: coversExpr_def tok)

lemma advances_stepWithin: "stepWithin lib f v st = Inr st' \<Longrightarrow> advances st st'"
  unfolding stepWithin_def Let_def bindE_def
  by (auto intro!: advances_emit advances_refl simp: closedText_coversExpr tokenIndices_coversExpr
      split: if_splits sum.splits)

lemma advances_stepGeoWithin: "stepGeoWithin lib f v st = (fv, Inr st') \<Longrightarrow> advances st st'"
  unfolding stepGeoWithin_def Let_def bindE_def
  by (auto intro!: advances_emit advances_refl simp: closedText_coversExpr tokenIndices_coversExpr
      split: if_splits sum.splits json.splits)

lemma closedText_distanceExpr: "closedText (distanceExpr i)"
  by (simp add: distanceExpr_def tok)

lemma tokenIndices_distanceExpr: "tokenIndices (distanceExpr i) = [i, i + 1, i + 2]"
  by (simp add: distanceExpr_def tok)

lemma advances_stepNearSphere: "advances st (stepNearSphere lib f v st)"
proof -
  have a: "advances st (emit (distanceExpr (index st) @ '' <= '' @ nm (index st + 3)) [a, b, c, d] 4 (st\<lparr>sorts := x\<rparr>))"
    for x a b c d
    by (rule advances_trans [OF advances_sorts [of st x]], rule advances_emit)
       (auto simp: tok closedText_distanceExpr tokenIndices_distanceExpr)
  have b: "advances st (emit (distanceExpr (index st)) [a, b, c] 3 (st\<lparr>sorts := x\<rparr>))"
    for x a b c
    by (rule advances_trans [OF advances_sorts [of st x]], rule advances_emit)
       (auto simp: tok closedText_distanceExpr tokenIndices_distanceExpr)
  show ?thesis
    unfolding stepNearSphere_def Let_def
    using a b by (auto simp: advances_refl)
qed

lemma advances_stepComparators:
  "stepComparators lib f v cs st = Inr st' \<Longrightarrow> \<forall>c \<in> set cs. CHR ''$'' \<notin> set (snd c) \<Longrightarrow>
   advances st st'"
proof (induction cs arbitrary: st)
  case Nil
  then show ?case by (simp add: advances_refl)
next
  case (Cons c cs)
  obtain cmp m where c: "c = (cmp, m)" by (cases c)
  show ?case
  proof (cases "truthy (getProp v cmp)")
    case True
    with Cons.prems c obtain w where w: "toMySQLValue lib (getProp v cmp) = Inr w"
      and r: "stepComparators lib f v cs
            (emit (bq (nm (index st)) @ '' '' @ m @ '' '' @ sq (nm (index st + 1))) [JStr f, w] 2 st) = Inr st'"
      by (auto simp: bindE_def split: sum.splits)
    from Cons.prems c have m: "CHR ''$'' \<notin> set m" by simp
    have "advances st (emit (bq (nm (index st)) @ '' '' @ m @ '' '' @ sq (nm (index st + 1))) [JStr f, w] 2 st)"
      by (rule advances_emit) (auto simp: tok closedText_plain [OF m] tokenIndices_plain [OF m])
    moreover from Cons.IH [OF r] Cons.prems have
      "advances (emit (bq (nm (index st)) @ '' '' @ m @ '' '' @ sq (nm (index st + 1))) [JStr f, w] 2 st) st'"
      by simp
    ultimately show ?thesis by (rule advances_trans)
  next
    case False
    with Cons c show ?thesis by simp
  qed
qed

text \<open>The branches of \<^verbatim>\<open>$ne\<close>, of \<^verbatim>\<open>$in\<close> and \<^verbatim>\<open>$nin\<close>, and the first chain of tests.\<close>

lemma advances_stepNe:
  "stepNe lib b f v st = (fv, r) \<Longrightarrow> r = Continue st' \<or> r = Next st' \<Longrightarrow> advances st st'"
  unfolding stepNe_def Let_def
  by (auto intro!: advances_emit advances_refl simp: tok split: if_splits)

lemma pair_range:
  "set (concat (map (\<lambda>k. [i, b + k]) [0..<n])) = (if n = 0 then {} else {i} \<union> {b ..< b + n})"
  by (induction n) auto

lemma single_range: "set (concat (map (\<lambda>k. [b + k]) [0..<n])) = {b ..< b + n}"
  by (induction n) auto

lemma advances_createConstraint: "advances st (createConstraint lib b f xs notIn st)"
proof (cases "xs = []")
  case True
  then show ?thesis
    unfolding createConstraint_def Let_def
    by (auto intro!: advances_emit advances_refl simp: tok)
next
  case False
  let ?i = "index st"
  let ?pa = "\<lambda>listIndex. ''JSON_CONTAINS('' @ bq (nm ?i) @ '', ''
                           @ sq (nm (?i + 1 + listIndex)) @ '') ''
                           @ (if notIn then '' != '' else '' = '') @ '' 1''"
  let ?pn = "\<lambda>listIndex. sq (nm (?i + 1 + listIndex))"
  have ca: "closedText (?pa k)" and ta: "tokenIndices (?pa k) = [?i, ?i + 1 + k]" for k
    by (simp_all add: tok)
  have cn: "closedText (?pn k)" and tn: "tokenIndices (?pn k) = [?i + 1 + k]" for k
    by (simp_all add: tok)
  have ja: "closedText (join '' || '' (map ?pa [0..<length xs]))"
    by (rule closedText_join) (use ca in \<open>auto simp: tok\<close>)
  have jn: "closedText (join '','' (map ?pn [0..<length xs]))"
    by (rule closedText_join) (use cn in \<open>auto simp: tok\<close>)
  have "tokenIndices (join '' || '' (map ?pa [0..<length xs])) = concat (map tokenIndices (map ?pa [0..<length xs]))"
    by (rule tokenIndices_join) (use ca in \<open>auto simp: tok\<close>)
  also have "\<dots> = concat (map (\<lambda>k. [?i, ?i + 1 + k]) [0..<length xs])"
    using ta by (simp add: comp_def)
  finally have tja: "set (tokenIndices (join '' || '' (map ?pa [0..<length xs]))) = {?i ..< ?i + 1 + length xs}"
    using False pair_range [of ?i "?i + 1" "length xs"] by auto
  have "tokenIndices (join '','' (map ?pn [0..<length xs])) = concat (map tokenIndices (map ?pn [0..<length xs]))"
    by (rule tokenIndices_join) (use cn in \<open>auto simp: tok\<close>)
  also have "\<dots> = concat (map (\<lambda>k. [?i + 1 + k]) [0..<length xs])"
    using tn by (simp add: comp_def)
  finally have tjn: "set (tokenIndices (join '','' (map ?pn [0..<length xs]))) = {?i + 1 ..< ?i + 1 + length xs}"
    using single_range [of "?i + 1" "length xs"] by simp
  have a: "advances st (st\<lparr>index := ?i + length (JStr f # map (JSON_stringify lib) xs),
              patterns := patterns st @ [join '' || '' (map ?pa [0..<length xs])],
              vals := vals st @ JStr f # map (JSON_stringify lib) xs\<rparr>)"
    by (rule advances_push [OF ja]) (use tja in simp)
  have n: "advances st (st\<lparr>index := ?i + length (JStr f # xs),
              patterns := patterns st @
                [bq (nm ?i) @ '' '' @ (if notIn then '' NOT '' else []) @ '' IN (''
                   @ join '','' (map ?pn [0..<length xs]) @ '')''],
              vals := vals st @ JStr f # xs\<rparr>)"
    by (rule advances_push) (use jn tjn in \<open>auto simp: tok\<close>)
  from False a n show ?thesis
    unfolding createConstraint_def Let_def by (cases b) simp_all
qed

lemma inStringLoop_tokens:
  assumes "if allowNull then JNull \<notin> set elems \<and> 1 \<le> listIndex
           else length (filter (\<lambda>x. x = JNull) elems) \<le> 1"
    and "inStringLoop i elems listIndex allowNull = (ps, vs, a)"
  shows "length ps = length vs \<and> (\<forall>p \<in> set ps. closedText p)
    \<and> set (concat (map tokenIndices ps))
        = (if ps = [] then {}
           else {i} \<union> {i + 1 + (listIndex - (if allowNull then 1 else 0)) ..<
                         i + 1 + (listIndex - (if allowNull then 1 else 0)) + length ps})"
  using assms
proof (induction elems arbitrary: listIndex allowNull ps vs a)
  case Nil
  then show ?case by simp
next
  case (Cons x xs)
  show ?case
  proof (cases "x = JNull")
    case True
    with Cons.prems(1) have an: "\<not> allowNull" and nn: "JNull \<notin> set xs"
      by (auto split: if_splits simp: filter_empty_conv)
    from True Cons.prems(2) have l: "inStringLoop i xs (Suc listIndex) True = (ps, vs, a)" by simp
    from Cons.IH [OF _ l] nn an show ?thesis by simp
  next
    case False
    obtain ps' vs' a' where l: "inStringLoop i xs (Suc listIndex) allowNull = (ps', vs', a')"
      by (cases "inStringLoop i xs (Suc listIndex) allowNull")
    let ?b = "listIndex - (if allowNull then 1 else 0)"
    let ?p = "''JSON_CONTAINS('' @ bq (nm i) @ '', JSON_ARRAY(''
                 @ sq (nm (i + 1 + listIndex - (if allowNull then 1 else 0))) @ '')) = 1''"
    from False Cons.prems(2) l have r: "ps = ?p # ps'" "vs = x # vs'" by auto
    have h: "if allowNull then JNull \<notin> set xs \<and> 1 \<le> Suc listIndex
           else length (filter (\<lambda>x. x = JNull) xs) \<le> 1"
      using Cons.prems(1) False by (auto split: if_splits)
    have sb: "Suc listIndex - (if allowNull then 1 else 0) = Suc ?b"
      using Cons.prems(1) by (auto split: if_splits)
    have ib: "i + 1 + listIndex - (if allowNull then 1 else 0) = i + 1 + ?b"
      using Cons.prems(1) by (auto split: if_splits)
    from Cons.IH [OF h l] have ih: "length ps' = length vs'" "\<forall>p \<in> set ps'. closedText p"
      "set (concat (map tokenIndices ps')) =
         (if ps' = [] then {} else {i} \<union> {i + 1 + Suc ?b ..< i + 1 + Suc ?b + length ps'})"
      unfolding sb by simp_all
    have c: "closedText ?p" and t: "tokenIndices ?p = [i, i + 1 + ?b]"
      unfolding ib by (simp_all add: tok)
    have "set (concat (map tokenIndices ps)) = {i} \<union> {i + 1 + ?b ..< i + 1 + ?b + length ps}"
      unfolding r(1) using ih(3) t
      by (simp only: list.map concat.simps set_append) (auto split: if_splits)
    with r ih c show ?thesis by simp
  qed
qed

lemma advances_inStringArray:
  assumes "length (filter (\<lambda>x. x = JNull) elems) \<le> 1"
  shows "advances st (inStringArray f elems st)"
proof -
  obtain ps vs a where l: "inStringLoop (index st) elems 0 False = (ps, vs, a)"
    by (cases "inStringLoop (index st) elems 0 False")
  from inStringLoop_tokens [OF _ l] assms
  have len: "length ps = length vs" and cl: "\<forall>p \<in> set ps. closedText p"
    and ts: "set (concat (map tokenIndices ps))
        = (if ps = [] then {} else {index st} \<union> {index st + 1 ..< index st + 1 + length ps})"
    by simp_all
  have j: "closedText (join '' OR '' ps)"
    by (rule closedText_join) (use cl in \<open>auto simp: tok\<close>)
  have tj: "tokenIndices (join '' OR '' ps) = concat (map tokenIndices ps)"
    by (rule tokenIndices_join) (use cl in \<open>auto simp: tok\<close>)
  let ?p = "if a then ''('' @ bq (nm (index st)) @ '' IS NULL OR '' @ join '' OR '' ps @ '')''
            else bq (nm (index st)) @ '' && '' @ join '' OR '' ps"
  have "advances st (st\<lparr>index := index st + length (JStr f # vs),
             patterns := patterns st @ [?p], vals := vals st @ JStr f # vs\<rparr>)"
    by (rule advances_push) (use j tj ts len in \<open>auto simp: tok split: if_splits\<close>)
  with l len show ?thesis
    by (simp add: inStringArray_def Let_def)
qed

lemma advances_stepIn:
  assumes "\<not> (b \<and> truthy (getProp desc ''contents'')
              \<and> getProp (getProp desc ''contents'') ''type'' = JStr ''String'' \<and> severalNulls v)"
  shows "advances st (stepIn lib desc b f v st)"
proof -
  have c: "advances st (createConstraint lib b f xs n st)" for xs n st
    by (rule advances_createConstraint)
  have cc: "advances st (createConstraint lib b f ys True (createConstraint lib b f xs False st))" for xs ys
    by (rule advances_trans [OF c c])
  show ?thesis
    unfolding stepIn_def Let_def
    using assms
    by (auto simp: severalNulls_def not_less c cc advances_refl intro!: advances_inStringArray)
qed

lemma advances_firstChain:
  assumes "firstChain lib f v sub st = (fv, r)" "CHR ''.'' \<notin> set f"
    and "\<And>subs' cl cv j. sub = (subs', Inr (cl, cv, j)) \<Longrightarrow> isArray v \<Longrightarrow>
           f = ''$or'' \<or> f = ''$and'' \<Longrightarrow>
           (\<forall>p \<in> set cl. closedText p) \<and> set (concat (map tokenIndices cl)) = {index st ..< j}
           \<and> j = index st + length cv"
    and "r = Continue st' \<or> r = Next st'"
  shows "advances st st'"
proof (cases "(f = ''$or'' \<or> f = ''$and'') \<and> isArray v")
  case False
  with assms(1,2,4) show ?thesis
    unfolding firstChain_def Let_def
    by (auto intro!: advances_emit advances_refl simp: tok split: if_splits json.splits)
next
  case True
  then obtain subs where v: "v = JArr subs" by (cases v) auto
  obtain subs' res where sub: "sub = (subs', res)" by (cases sub)
  from assms(1,2,4) True v sub obtain cl cv j where res: "res = Inr (cl, cv, j)"
    and st': "st' = st\<lparr>index := j,
                            patterns := patterns st @
                              [''('' @ join (if f = ''$or'' then '' OR '' else '' AND '') cl @ '')''],
                            vals := vals st @ cv\<rparr>"
    unfolding firstChain_def Let_def
    by (auto split: if_splits sum.splits)
  from assms(3) [OF sub [unfolded res]] True
  have cl: "\<forall>p \<in> set cl. closedText p" and ts: "set (concat (map tokenIndices cl)) = {index st ..< j}"
    and j: "j = index st + length cv"
    by simp_all
  have c: "closedText (join (if f = ''$or'' then '' OR '' else '' AND '') cl)"
    by (rule closedText_join) (use cl in \<open>auto simp: tok\<close>)
  have t: "tokenIndices (join (if f = ''$or'' then '' OR '' else '' AND '') cl) = concat (map tokenIndices cl)"
    by (rule tokenIndices_join) (use cl in \<open>auto simp: tok\<close>)
  show ?thesis
    unfolding st' j
    by (rule advances_push) (use c t ts j in \<open>auto simp: tok\<close>)
qed

text \<open>The body of the loop for one field, and the recursion.\<close>

declare advances_trans [trans]

lemma advances_mid1:
  assumes "bindE (stepText f v (stepExists f v (stepAll lib b f v (stepIn lib desc b f v (stepEq f v st)))))
             (\<lambda>st3. stepWithin lib f v (stepNearSphere lib f v st3)) = Inr st4"
    and nn: "\<not> (b \<and> truthy (getProp desc ''contents'')
              \<and> getProp (getProp desc ''contents'') ''type'' = JStr ''String'' \<and> severalNulls v)"
  shows "advances st st4"
proof -
  from assms(1) obtain st3 where
    t: "stepText f v (stepExists f v (stepAll lib b f v (stepIn lib desc b f v (stepEq f v st)))) = Inr st3"
    and w: "stepWithin lib f v (stepNearSphere lib f v st3) = Inr st4"
    by (auto simp: bindE_def split: sum.splits)
  have "advances st (stepEq f v st)" by (rule advances_stepEq)
  also have "advances (stepEq f v st) (stepIn lib desc b f v (stepEq f v st))"
    by (rule advances_stepIn [OF nn])
  also have "advances (stepIn lib desc b f v (stepEq f v st)) (stepAll lib b f v (stepIn lib desc b f v (stepEq f v st)))"
    by (rule advances_stepAll)
  also have "advances (stepAll lib b f v (stepIn lib desc b f v (stepEq f v st)))
       (stepExists f v (stepAll lib b f v (stepIn lib desc b f v (stepEq f v st))))"
    by (rule advances_stepExists)
  also have "advances (stepExists f v (stepAll lib b f v (stepIn lib desc b f v (stepEq f v st)))) st3"
    by (rule advances_stepText [OF t])
  also have "advances st3 (stepNearSphere lib f v st3)" by (rule advances_stepNearSphere)
  also have "advances (stepNearSphere lib f v st3) st4" by (rule advances_stepWithin [OF w])
  finally show ?thesis .
qed

lemma advances_mid2:
  assumes "bindE (stepRegex f v st5) (\<lambda>st6.
             bindE (stepDate lib f v (stepPointer lib b f v st6)) (\<lambda>st7.
               stepComparators lib f v ParseToMySQLComparator (stepGeoPoint f v st7))) = Inr st8"
  shows "advances st5 st8"
proof -
  from assms obtain st6 st7 where r: "stepRegex f v st5 = Inr st6"
    and d: "stepDate lib f v (stepPointer lib b f v st6) = Inr st7"
    and c: "stepComparators lib f v ParseToMySQLComparator (stepGeoPoint f v st7) = Inr st8"
    by (auto simp: bindE_def split: sum.splits)
  have "advances st5 st6" by (rule advances_stepRegex [OF r])
  also have "advances st6 (stepPointer lib b f v st6)" by (rule advances_stepPointer)
  also have "advances (stepPointer lib b f v st6) st7" by (rule advances_stepDate [OF d])
  also have "advances st7 (stepGeoPoint f v st7)" by (rule advances_stepGeoPoint)
  also have "advances (stepGeoPoint f v st7) st8"
    by (rule advances_stepComparators [OF c]) (simp add: ParseToMySQLComparator_def)
  finally show ?thesis .
qed

lemma getProp_setProp_other: "k \<noteq> k' \<Longrightarrow> getProp (setProp v k x) k' = getProp v k'"
  by (cases v) (simp_all add: update_conv')

lemma firstChain_in: "firstChain lib f v sub st = (fv, r) \<Longrightarrow> getProp fv ''$in'' = getProp v ''$in''"
  unfolding firstChain_def Let_def
  by (auto split: if_splits json.splits sum.splits prod.splits)

lemma stepNe_in: "stepNe lib b f v st = (fv, r) \<Longrightarrow> getProp fv ''$in'' = getProp v ''$in''"
  unfolding stepNe_def Let_def
  by (auto split: if_splits simp: getProp_setProp_other)

lemma advances_whereField:
  assumes w: "whereField lib fs f v sub st = (fv, r)" and nodot: "CHR ''.'' \<notin> set f"
    and sub: "\<And>subs' cl cv j. sub = (subs', Inr (cl, cv, j)) \<Longrightarrow> isArray v \<Longrightarrow>
           f = ''$or'' \<or> f = ''$and'' \<Longrightarrow>
           (\<forall>p \<in> set cl. closedText p) \<and> set (concat (map tokenIndices cl)) = {index st ..< j}
           \<and> j = index st + length cv"
    and nn: "\<not> (stringArrayField fs f \<and> severalNulls v)"
    and r: "r = Continue st' \<or> r = Next st'"
  shows "advances st st'"
proof (cases "\<not> truthy (fieldDesc fs f) \<and> truthy v \<and> getProp v ''$exists'' = JBool False")
  case True
  with w r show ?thesis by (auto simp: whereField_def Let_def advances_refl)
next
  case False
  let ?b = "truthy (fieldDesc fs f) \<and> getProp (fieldDesc fs f) ''type'' = JStr ''Array''"
  obtain fv1 r1 where fc: "firstChain lib f v sub st = (fv1, r1)" by (cases "firstChain lib f v sub st")
  note a1 = advances_firstChain [OF fc nodot sub]
  show ?thesis
  proof (cases r1)
    case (Raise e)
    with w r fc False show ?thesis by (auto simp: whereField_def Let_def)
  next
    case (Continue st1)
    with w r fc False have "st' = st1" by (auto simp: whereField_def Let_def)
    with a1 Continue show ?thesis by simp
  next
    case (Next st1)
    with a1 have s1: "advances st st1" by simp
    obtain fv2 r2 where ne: "stepNe lib ?b f fv1 st1 = (fv2, r2)" by (cases "stepNe lib ?b f fv1 st1")
    from firstChain_in [OF fc] stepNe_in [OF ne] have "getProp fv2 ''$in'' = getProp v ''$in''" by simp
    with nn have nn2: "\<not> (?b \<and> truthy (getProp (fieldDesc fs f) ''contents'')
              \<and> getProp (getProp (fieldDesc fs f) ''contents'') ''type'' = JStr ''String'' \<and> severalNulls fv2)"
      by (auto simp: stringArrayField_def severalNulls_def)
    from w fc Next False have nnull: "\<not> nullish fv1"
      using r by (auto simp: whereField_def Let_def split: if_splits)
    show ?thesis
    proof (cases r2)
      case (Raise e)
      with w r fc Next ne False nnull show ?thesis by (auto simp: whereField_def Let_def)
    next
      case (Continue st2)
      with w r fc Next ne False nnull have "st' = st2" by (auto simp: whereField_def Let_def)
      with advances_stepNe [OF ne, of st2] Continue s1 show ?thesis
        by (auto intro: advances_trans)
    next
      case n2: (Next st2)
      with advances_stepNe [OF ne, of st2] have s2: "advances st1 st2" by simp
      let ?m1 = "bindE (stepText f fv2
                                  (stepExists f fv2
                                    (stepAll lib ?b f fv2
                                      (stepIn lib (fieldDesc fs f) ?b f fv2
                                        (stepEq f fv2 st2)))))
                            (\<lambda>st3. stepWithin lib f fv2 (stepNearSphere lib f fv2 st3))"
      from w r fc Next ne n2 False nnull obtain st4 where m1: "?m1 = Inr st4"
        by (cases ?m1) (auto simp: whereField_def Let_def)
      from advances_mid1 [OF m1 nn2] have s4: "advances st2 st4" .
      obtain fv3 r3 where g: "stepGeoWithin lib f fv2 st4 = (fv3, r3)"
        by (cases "stepGeoWithin lib f fv2 st4")
      from w r fc Next ne n2 False nnull m1 g obtain st5 where r3: "r3 = Inr st5"
        by (cases r3) (auto simp: whereField_def Let_def)
      from advances_stepGeoWithin [OF g [unfolded r3]] have s5: "advances st4 st5" .
      let ?m2 = "bindE (stepRegex f fv3 st5) (\<lambda>st6.
                                    bindE (stepDate lib f fv3
                                             (stepPointer lib ?b f fv3 st6)) (\<lambda>st7.
                                      stepComparators lib f fv3 ParseToMySQLComparator
                                        (stepGeoPoint f fv3 st7)))"
      from w r fc Next ne n2 False nnull m1 g r3 obtain st8 where m2: "?m2 = Inr st8"
        by (cases ?m2) (auto simp: whereField_def Let_def)
      from advances_mid2 [OF m2] have s8: "advances st5 st8" .
      from w r fc Next ne n2 False nnull m1 g r3 m2 have "st' = st8"
        by (auto simp: whereField_def Let_def split: if_splits sum.splits)
      with s1 s2 s4 s5 s8 show ?thesis
        by (blast intro: advances_trans)
    qed
  qed
qed

lemma mapE_length: "mapE f xs = Inr ys \<Longrightarrow> length ys = length xs"
  by (induction xs arbitrary: ys) (auto simp: bindE_def split: sum.splits)

lemma tokens_cover:
  shows "tokensOK (fieldsOf (toMySQLSchema schema)) q \<Longrightarrow>
         (\<forall>c. snd (snd (buildWhereClause lib schema q i)) = Inr c \<longrightarrow>
            closedText (pattern c)
            \<and> set (tokenIndices (pattern c)) = {i ..< i + length (boundValues c)})"
    and "toMySQLSchema s = s \<Longrightarrow>
         (\<forall>(k, v) \<in> set kvs. CHR ''.'' \<notin> set k \<and> \<not> (stringArrayField (fieldsOf s) k \<and> severalNulls v)
            \<and> (case v of
                 JArr subs \<Rightarrow> (k = ''$or'' \<or> k = ''$and'') \<longrightarrow> (\<forall>sub \<in> set subs. tokensOK (fieldsOf s) sub)
               | _ \<Rightarrow> True)) \<Longrightarrow>
         (\<forall>st'. snd (whereFields lib s kvs st) = Inr st' \<longrightarrow> advances st st')"
    and "toMySQLSchema s = s \<Longrightarrow> (\<forall>sub \<in> set subs. tokensOK (fieldsOf s) sub) \<Longrightarrow>
         (\<forall>cl cv k. snd (whereClauses lib s subs j) = Inr (cl, cv, k) \<longrightarrow>
            (\<forall>p \<in> set cl. closedText p) \<and> set (concat (map tokenIndices cl)) = {j ..< k}
            \<and> k = j + length cv)"
proof (induction lib schema q i and lib s kvs st and lib s subs j
       rule: buildWhereClause_whereFields_whereClauses.induct)
  case (1 lib schema query i)
  from "1.prems" have c: "\<forall>(k, v) \<in> set (entries query).
       CHR ''.'' \<notin> set k
       \<and> \<not> (stringArrayField (fieldsOf (toMySQLSchema schema)) k \<and> severalNulls v)
       \<and> (case v of
            JArr subs \<Rightarrow> (k = ''$or'' \<or> k = ''$and'') \<longrightarrow>
               (\<forall>sub \<in> set subs. tokensOK (fieldsOf (toMySQLSchema schema)) sub)
          | _ \<Rightarrow> True)"
    by (subst (asm) tokensOK.simps) simp
  note ih = "1.IH" [OF toMySQLSchema_idem c]
  show ?case
  proof (intro allI impI)
    fix c assume r: "snd (snd (buildWhereClause lib schema query i)) = Inr c"
    let ?init = "\<lparr>index = i, patterns = [], vals = [], sorts = []\<rparr>"
    obtain kvs res where wf: "whereFields lib (toMySQLSchema schema) (entries query) ?init = (kvs, res)"
      by (cases "whereFields lib (toMySQLSchema schema) (entries query) ?init")
    with r obtain st' where res: "res = Inr st'" and f: "finish st' = Inr c"
      by (cases res) (auto simp: buildWhereClause.simps bindE_def)
    from ih wf res have "advances ?init st'" by simp
    then obtain ps vs where p: "patterns st' = ps" "vals st' = vs" "index st' = i + length vs"
      "\<forall>p \<in> set ps. closedText p" "set (concat (map tokenIndices ps)) = {i ..< i + length vs}"
      unfolding advances_def by auto
    from f obtain ws where m: "mapE transformValue (vals st') = Inr ws"
      and c: "c = \<lparr>pattern = join '' AND '' (patterns st'), boundValues = ws, sortExprs = sorts st'\<rparr>"
      by (auto simp: finish_def bindE_def split: sum.splits)
    from mapE_length [OF m] p have l: "length ws = length vs" by simp
    have "closedText (join '' AND '' ps)"
      by (rule closedText_join) (use p(4) in \<open>auto simp: tok\<close>)
    moreover have "tokenIndices (join '' AND '' ps) = concat (map tokenIndices ps)"
      by (rule tokenIndices_join) (use p(4) in \<open>auto simp: tok\<close>)
    ultimately show "closedText (pattern c)
       \<and> set (tokenIndices (pattern c)) = {i ..< i + length (boundValues c)}"
      using c p l by simp
  qed
next
  case (2 lib schema st)
  then show ?case by (simp add: advances_refl)
next
  case (3 lib schema fieldName fieldValue rest st)
  let ?sub = "(case fieldValue of
             JArr subs \<Rightarrow>
               if fieldName = ''$or'' \<or> fieldName = ''$and''
               then whereClauses lib schema subs (index st)
               else ([], Inr ([], [], 0))
             | _ \<Rightarrow> ([], Inr ([], [], 0)))"
  from "3.prems"(2) have nodot: "CHR ''.'' \<notin> set fieldName"
    and nn: "\<not> (stringArrayField (fieldsOf schema) fieldName \<and> severalNulls fieldValue)"
    and subs: "\<And>subs. fieldValue = JArr subs \<Longrightarrow> fieldName = ''$or'' \<or> fieldName = ''$and'' \<Longrightarrow>
                 \<forall>sub \<in> set subs. tokensOK (fieldsOf schema) sub"
    and rest: "\<forall>(k, v) \<in> set rest. CHR ''.'' \<notin> set k
            \<and> \<not> (stringArrayField (fieldsOf schema) k \<and> severalNulls v)
            \<and> (case v of
                 JArr subs \<Rightarrow> (k = ''$or'' \<or> k = ''$and'') \<longrightarrow> (\<forall>sub \<in> set subs. tokensOK (fieldsOf schema) sub)
               | _ \<Rightarrow> True)"
    by auto
  have s: "(\<forall>p \<in> set cl. closedText p) \<and> set (concat (map tokenIndices cl)) = {index st ..< j}
           \<and> j = index st + length cv"
    if "?sub = (subs', Inr (cl, cv, j))" "isArray fieldValue" "fieldName = ''$or'' \<or> fieldName = ''$and''"
    for subs' cl cv j
  proof -
    from that(2) obtain sq where v: "fieldValue = JArr sq" by (cases fieldValue) auto
    from "3.IH"(1) [OF v that(3) "3.prems"(1) subs [OF v that(3)]] that(1,3) v
    show ?thesis by simp
  qed
  obtain fv r where w: "whereField lib (fieldsOf schema) fieldName fieldValue ?sub st = (fv, r)"
    by (cases "whereField lib (fieldsOf schema) fieldName fieldValue ?sub st")
  note a = advances_whereField [OF w nodot s nn]
  show ?case
  proof (intro allI impI)
    fix st' assume e: "snd (whereFields lib schema ((fieldName, fieldValue) # rest) st) = Inr st'"
    show "advances st st'"
    proof (cases r)
      case (Raise e')
      with w e show ?thesis by simp
    next
      case (Continue st1)
      with a [where st' = st1] have 1: "advances st st1" by simp
      from e w Continue have "snd (whereFields lib schema rest st1) = Inr st'"
        by (auto split: prod.splits)
      with "3.IH"(2) [OF w [symmetric] Continue "3.prems"(1) rest] have "advances st1 st'" by simp
      with 1 show ?thesis by (rule advances_trans)
    next
      case (Next st1)
      with a [where st' = st1] have 1: "advances st st1" by simp
      from e w Next have "snd (whereFields lib schema rest st1) = Inr st'"
        by (auto split: prod.splits)
      with "3.IH"(3) [OF w [symmetric] Next "3.prems"(1) rest] have "advances st1 st'" by simp
      with 1 show ?thesis by (rule advances_trans)
    qed
  qed
next
  case (4 lib schema i)
  then show ?case by simp
next
  case (5 lib schema subQuery subs i)
  from "5.prems" have f: "tokensOK (fieldsOf (toMySQLSchema schema)) subQuery"
    and r: "\<forall>sub \<in> set subs. tokensOK (fieldsOf schema) sub"
    by simp_all
  obtain sch q' res where b: "buildWhereClause lib schema subQuery i = (sch, q', res)"
    by (cases "buildWhereClause lib schema subQuery i")
  show ?case
  proof (intro allI impI)
    fix cl cv k
    assume e: "snd (whereClauses lib schema (subQuery # subs) i) = Inr (cl, cv, k)"
    with b obtain c where res: "res = Inr c" by (cases res) auto
    let ?i = "if pattern c \<noteq> [] then i + length (boundValues c) else i"
    from "5.IH"(1) [OF f] b res have c: "closedText (pattern c)"
      "set (tokenIndices (pattern c)) = {i ..< i + length (boundValues c)}"
      by simp_all
    obtain subs' res' where wc: "whereClauses lib schema subs ?i = (subs', res')"
      by (cases "whereClauses lib schema subs ?i")
    with e b res obtain cl' cv' where res': "res' = Inr (cl', cv', k)"
      and out: "(cl, cv) = (if pattern c \<noteq> [] then (pattern c # cl', boundValues c @ cv') else (cl', cv'))"
      by (cases res') (auto split: if_splits)
    from "5.IH"(2) [OF b [symmetric] refl res "5.prems"(1) r] wc res'
    have ih: "\<forall>p \<in> set cl'. closedText p" "set (concat (map tokenIndices cl')) = {?i ..< k}"
      "k = ?i + length cv'"
      by simp_all
    show "(\<forall>p \<in> set cl. closedText p) \<and> set (concat (map tokenIndices cl)) = {i ..< k}
            \<and> k = i + length cv"
    proof (cases "pattern c \<noteq> []")
      case True
      with out have o: "cl = pattern c # cl'" "cv = boundValues c @ cv'" by simp_all
      from True ih have "set (concat (map tokenIndices cl')) = {i + length (boundValues c) ..< k}"
        "k = i + length (boundValues c) + length cv'" by simp_all
      with c ih(1) show ?thesis unfolding o by auto
    next
      case False
      with out ih show ?thesis by simp
    qed
  qed
qed

lemma nm_2: "nm 2 = ''$2:name''"
  by code_simp

lemma nm_3: "nm 3 = ''$3:name''"
  by code_simp

lemma or_example:
  "snd (snd (buildWhereClause plainSdk
       \<lparr>className = ''Game'', schemaFields = Some [], classLevelPermissions = None\<rparr>
       (JObj [(''$or'', JArr [JObj [(''a'', JNum 1)], JObj [(''b'', JNum 2)]])]) 2)) =
     Inr \<lparr>pattern = ''('' @ bq (nm 2) @ '' = '' @ nm 3 @ '' OR '' @ bq (nm 4) @ '' = '' @ nm 5 @ '')'',
          boundValues = [JStr ''a'', JNum 1, JStr ''b'', JNum 2], sortExprs = []\<rparr>"
  by (simp add: buildWhereClause.simps whereField_def firstChain_def stepNe_def stepEq_def stepIn_def stepAll_def
      stepExists_def stepText_def stepNearSphere_def stepWithin_def stepGeoWithin_def stepRegex_def
      stepPointer_def stepDate_def stepGeoPoint_def ParseToMySQLComparator_def createConstraint_def
      flatMapId_def bindE_def Let_def emit_def toMySQLSchema_def fieldsOf_def fieldDesc_def inheritedNames_def
      finish_def transformValue_def ownProps_single putProps_single)

text \<open>
  C1. For a query that \<open>tokensOK\<close> admits and that \<^verbatim>\<open>buildWhereClause\<close> compiles from the
  index \<open>i\<close>, the indices of the placeholder tokens of the returned pattern are the
  indices from \<open>i\<close> up to \<open>i\<close> plus the number of returned values, each of them and no
  other: the tokens start at the index supplied and leave no gap, and every value has a
  token. An index can occur in more than one token.
\<close>

theorem placeholder_indices_cover_values:
  assumes "tokensOK (fieldsOf (toMySQLSchema schema)) q"
    and "snd (snd (buildWhereClause lib schema q i)) = Inr c"
  shows "set (tokenIndices (pattern c)) = {i ..< i + length (boundValues c)}"
  using tokens_cover(1) [OF assms(1), of lib i] assms(2) by blast

theorem placeholder_indices_cover_values_witness:
  "snd (snd (buildWhereClause plainSdk
       \<lparr>className = ''Game'', schemaFields = Some [], classLevelPermissions = None\<rparr>
       (JObj [(''$or'', JArr [JObj [(''a'', JNum 1)], JObj [(''b'', JNum 2)]])]) 2)) =
     Inr \<lparr>pattern = ''('' @ bq (nm 2) @ '' = '' @ nm 3 @ '' OR '' @ bq (nm 4) @ '' = '' @ nm 5 @ '')'',
          boundValues = [JStr ''a'', JNum 1, JStr ''b'', JNum 2], sortExprs = []\<rparr>
   \<and> set (tokenIndices (''('' @ bq (nm 2) @ '' = '' @ nm 3 @ '' OR '' @ bq (nm 4) @ '' = '' @ nm 5 @ '')''))
     = {2 ..< 2 + length [JStr ''a'', JNum 1, JStr ''b'', JNum 2]}"
proof -
  let ?s = "\<lparr>className = ''Game'', schemaFields = Some [], classLevelPermissions = None\<rparr>"
  have ok: "tokensOK (fieldsOf (toMySQLSchema ?s))
      (JObj [(''$or'', JArr [JObj [(''a'', JNum 1)], JObj [(''b'', JNum 2)]])])"
    by (simp add: tokensOK.simps stringArrayField_def severalNulls_def ownProps_single)
  from placeholder_indices_cover_values [OF ok or_example] or_example show ?thesis by simp
qed

text \<open>
  The query \<^verbatim>\<open>{a: {$ne: 1}}\<close> from index 2 compiles to a pattern with three tokens for
  two values: the token of the field name occurs twice.
\<close>

theorem repeated_index_counterexample:
  "snd (snd (buildWhereClause plainSdk
       \<lparr>className = ''Game'', schemaFields = Some [], classLevelPermissions = None\<rparr>
       (JObj [(''a'', JObj [(''$ne'', JNum 1)])]) 2)) =
     Inr \<lparr>pattern = ''('' @ [btick] @ ''$2:name'' @ [btick] @ '' <> '' @ [squote] @ ''$3:name''
                       @ [squote] @ '' OR '' @ [btick] @ ''$2:name'' @ [btick] @ '' IS NULL)'',
          boundValues = [JStr ''a'', JNum 1], sortExprs = []\<rparr>
   \<and> tokenIndices (''('' @ [btick] @ ''$2:name'' @ [btick] @ '' <> '' @ [squote] @ ''$3:name''
                       @ [squote] @ '' OR '' @ [btick] @ ''$2:name'' @ [btick] @ '' IS NULL)'')
       = [2, 3, 2]"
proof -
  have "snd (snd (buildWhereClause plainSdk
       \<lparr>className = ''Game'', schemaFields = Some [], classLevelPermissions = None\<rparr>
       (JObj [(''a'', JObj [(''$ne'', JNum 1)])]) 2)) =
     Inr \<lparr>pattern = ''('' @ bq (nm 2) @ '' <> '' @ sq (nm 3) @ '' OR '' @ bq (nm 2) @ '' IS NULL)'',
          boundValues = [JStr ''a'', JNum 1], sortExprs = []\<rparr>"
    by (simp add: buildWhereClause_single whereField_def firstChain_operator stepNe_def stepEq_def stepIn_def stepAll_def
      stepExists_def stepText_def stepNearSphere_def stepWithin_def stepGeoWithin_def stepRegex_def
      stepPointer_def stepDate_def stepGeoPoint_def ParseToMySQLComparator_def createConstraint_def
      flatMapId_def bindE_def Let_def emit_def toMySQLSchema_def fieldsOf_def fieldDesc_def inheritedNames_def
      finish_def transformValue_def)
  moreover have "tokenIndices (''('' @ [btick] @ ''$2:name'' @ [btick] @ '' <> '' @ [squote] @ ''$3:name''
                       @ [squote] @ '' OR '' @ [btick] @ ''$2:name'' @ [btick] @ '' IS NULL)'')
       = [2, 3, 2]"
    by code_simp
  ultimately show ?thesis by (simp add: nm_2 nm_3 bq_def sq_def)
qed

section \<open>Properties of the update expression compiler\<close>

subsection \<open>Updates with no dotted name and no provider name\<close>

lemma handleDotLoop_plain:
  "\<forall>k \<in> set ks. CHR ''.'' \<notin> set k \<Longrightarrow> handleDotLoop ks u = Some (Inr u)"
  by (induction ks) (simp_all add: handleDotField_def bindO_def)

lemma foldAuthLoop_plain:
  "\<forall>k \<in> set ks. authDataMatch k = None \<Longrightarrow> foldAuthLoop ks u = Some (Inr u)"
  by (induction ks) (simp_all add: foldAuthField_def bindO_def)

lemma handleDotFields_plain:
  assumes "\<forall>k \<in> fst ` set u. CHR ''.'' \<notin> set k"
  shows "handleDotFields u = Some (Inr u)"
proof -
  have "set (map fst (ownProps u)) = fst ` set u" by (simp add: ownProps_set)
  with assms show ?thesis
    unfolding handleDotFields_def by (intro handleDotLoop_plain) simp
qed

lemma foldAuthFields_plain:
  assumes "\<forall>k \<in> fst ` set u. authDataMatch k = None"
  shows "foldAuthLoop (map fst (ownProps u)) u = Some (Inr u)"
proof -
  have "set (map fst (ownProps u)) = fst ` set u" by (simp add: ownProps_set)
  with assms show ?thesis by (intro foldAuthLoop_plain) simp
qed

lemma splitOn_plain: "c \<notin> set s \<Longrightarrow> splitOn c s = [s]"
  by (induction s) auto

lemma filterE_none:
  assumes "\<And>x. x \<in> set xs \<Longrightarrow> p x = Inl e \<or> p x = Inr False"
  shows "filterE p xs = Inr [] \<or> (\<exists>e. filterE p xs = Inl e)"
  using assms
proof (induction xs)
  case Nil
  then show ?case by simp
next
  case (Cons x xs)
  then have "filterE p xs = Inr [] \<or> (\<exists>e. filterE p xs = Inl e)" by simp
  moreover from Cons.prems [of x] have "p x = Inl e \<or> p x = Inr False" by simp
  ultimately show ?case by (auto simp: bindE_def)
qed

lemma deleteKeys_Nil: "deleteKeys [] v = v"
proof (cases v)
  case (JArr xs)
  have "map (\<lambda>(i, x). if showNat i \<in> set [] then JUndefined else x) (zip [0..<length xs] xs) = xs"
  proof (rule nth_equalityI)
    show "length (map (\<lambda>(i, x). if showNat i \<in> set [] then JUndefined else x)
                   (zip [0..<length xs] xs)) = length xs"
      by simp
  next
    fix i
    assume "i < length (map (\<lambda>(i, x). if showNat i \<in> set [] then JUndefined else x)
                         (zip [0..<length xs] xs))"
    then have "i < length xs" by simp
    then show "map (\<lambda>(i, x). if showNat i \<in> set [] then JUndefined else x)
                 (zip [0..<length xs] xs) ! i = xs ! i"
      by simp
  qed
  with JArr show ?thesis by (simp del: set_simps)
qed simp_all

lemma updateKeys_plain:
  assumes "\<forall>k \<in> fst ` set orig. CHR ''.'' \<notin> set k"
  shows "(\<exists>e. updateKeys orig f = Inl e) \<or> (\<exists>ks. updateKeys orig f = Inr (ks, [], [], []))"
proof -
  have p: "(case x of (k, v) \<Rightarrow> bindE (propE v ''__op'') (\<lambda>op. Inr (P op \<and> nestedKey f k))) = Inl TypeError
      \<or> (case x of (k, v) \<Rightarrow> bindE (propE v ''__op'') (\<lambda>op. Inr (P op \<and> nestedKey f k))) = Inr False"
    if "x \<in> set (ownProps orig)" for x P
  proof -
    obtain k v where x: "x = (k, v)" by (cases x)
    from that have "x \<in> set orig" by (simp add: ownProps_set)
    with assms x have "CHR ''.'' \<notin> set k" by force
    then have "\<not> nestedKey f k" by (simp add: nestedKey_def splitOn_plain)
    then show ?thesis by (simp add: x bindE_def propE_def)
  qed
  have r: "filterE (\<lambda>(k, v). bindE (propE v ''__op'') (\<lambda>op. Inr (P op \<and> nestedKey f k)))
             (ownProps orig) = Inr []
      \<or> (\<exists>e. filterE (\<lambda>(k, v). bindE (propE v ''__op'') (\<lambda>op. Inr (P op \<and> nestedKey f k)))
                (ownProps orig) = Inl e)"
    for P
    by (rule filterE_none [where e = TypeError]) (rule p)
  show ?thesis
    unfolding updateKeys_def
    using r [of "\<lambda>op. \<not> truthy op"] r [of "\<lambda>op. op = JStr ''Increment''"] r [of "\<lambda>op. op = JStr ''Delete''"]
    by (cases "filterE (\<lambda>(k, v). bindE (propE v ''__op'') (\<lambda>op.
              Inr (\<not> truthy op \<and> CHR ''.'' \<notin> set k \<and> k \<noteq> ''updatedAt''))) (ownProps orig)")
       (auto simp: bindE_def)
qed

lemma fst_objectAssignments: "fst (objectAssignments lib ks [] [] [] f v st) = v"
  by (simp add: objectAssignments_def deleteKeys_Nil Let_def)

lemma fst_objectBranch:
  assumes "\<forall>k \<in> fst ` set orig. CHR ''.'' \<notin> set k"
  shows "fst (objectBranch lib orig f v st) = v"
  using updateKeys_plain [OF assms, where f = f]
  by (auto simp: objectBranch_def fst_objectAssignments)

lemma fst_updateBySchema:
  assumes "\<forall>k \<in> fst ` set orig. CHR ''.'' \<notin> set k"
  shows "fst (updateBySchema lib fs orig f v st) = v"
proof -
  have ob: "(case objectBranch lib orig f v st of (fv', Inl e) \<Rightarrow> (fv', Throw e) | (fv', Inr st') \<Rightarrow> (fv', Go st'))
     = (v, case snd (objectBranch lib orig f v st) of Inl e \<Rightarrow> Throw e | Inr st' \<Rightarrow> Go st')"
    using fst_objectBranch [OF assms, of lib f v st]
    by (cases "objectBranch lib orig f v st") (auto split: sum.splits)
  show ?thesis
    unfolding updateBySchema_def ob by (simp split: option.split)
qed

lemma fst_updateByType:
  assumes "\<forall>k \<in> fst ` set orig. CHR ''.'' \<notin> set k"
  shows "fst (updateByType lib fs orig f v st) = v"
  unfolding updateByType_def Let_def
  by (simp add: fst_updateBySchema [OF assms] split: sum.split)

lemma fst_updateByOp:
  assumes "\<forall>k \<in> fst ` set orig. CHR ''.'' \<notin> set k"
  shows "fst (updateByOp lib fs orig f v st) = v"
  unfolding updateByOp_def Let_def
  by (simp add: fst_updateByType [OF assms] split: json.split)

lemma fst_updateField:
  assumes "\<forall>k \<in> fst ` set orig. CHR ''.'' \<notin> set k"
  shows "fst (updateField lib fs orig f v st) = v"
  unfolding updateField_def Let_def
  by (simp add: fst_updateByOp [OF assms] split: sum.split prod.split)

lemma fst_updateLoop:
  assumes "\<forall>k \<in> fst ` set orig. CHR ''.'' \<notin> set k"
  shows "fst (updateLoop lib fs orig u st) = u"
proof (induction u arbitrary: st)
  case Nil
  then show ?case by simp
next
  case (Cons p u)
  obtain k v where p: "p = (k, v)" by (cases p)
  obtain fv r where w: "updateField lib fs orig k v st = (fv, r)" by (cases "updateField lib fs orig k v st")
  with fst_updateField [OF assms, of lib fs k v st] have fv: "fv = v" by simp
  show ?case
  proof (cases r)
    case (Go st')
    obtain u' r' where l: "updateLoop lib fs orig u st' = (u', r')" by (cases "updateLoop lib fs orig u st'")
    with Cons.IH [of st'] have "u' = u" by simp
    with l w fv p Go show ?thesis by simp
  qed (use w fv p in simp_all)
qed

lemma transformUpdate_frame:
  assumes "\<forall>k \<in> fst ` set u. CHR ''.'' \<notin> set k \<and> authDataMatch k = None"
  shows "fst (transformUpdate lib schema u) = Some u"
proof -
  let ?st = "\<lparr>index = 2, patterns = [], vals = [], sorts = []\<rparr>"
  have a: "handleDotFields u = Some (Inr u)"
    using assms by (intro handleDotFields_plain) auto
  have b: "foldAuthLoop (map fst (ownProps u)) u = Some (Inr u)"
    using assms by (intro foldAuthFields_plain) auto
  have c: "fst (updateLoop lib (schemaFields schema) u (ownProps u) ?st) = ownProps u"
    using assms by (intro fst_updateLoop) auto
  obtain u2 r where l: "updateLoop lib (schemaFields schema) u (ownProps u) ?st = (u2, r)"
    by (cases "updateLoop lib (schemaFields schema) u (ownProps u) ?st")
  with c have "u2 = ownProps u" by simp
  with l show ?thesis
    by (cases r) (simp_all add: transformUpdate_def a b bindO_def putProps_ownProps)
qed

subsection \<open>A value none of the tests of the loop body takes\<close>





section \<open>Properties of both compilers\<close>

subsection \<open>Unsupported shapes\<close>




subsection \<open>The inputs after a call\<close>

text \<open>
  C2. A call of \<^verbatim>\<open>buildWhereClause\<close> returns with the schema object as \<^verbatim>\<open>toMySQLSchema\<close>
  leaves it, with the implicit fields assigned into its field map; a schema that holds
  them already is left as it was. It returns with the query as it was when no \<^verbatim>\<open>$ne\<close>
  operand sits on an Array field and no \<^verbatim>\<open>$geoWithin.$polygon\<close> is an open ring, in the
  query and in the sub-queries of its \<^verbatim>\<open>$or\<close> and \<^verbatim>\<open>$and\<close> lists. A call of
  \<^verbatim>\<open>transformUpdate\<close> returns with the update document as it was when no name of the
  document holds a dot or is the name \<^verbatim>\<open>_auth_data_\<close> of a provider.
\<close>

theorem compilation_leaves_inputs:
  "fst (buildWhereClause lib schema q i) = toMySQLSchema schema
   \<and> toMySQLSchema (toMySQLSchema schema) = toMySQLSchema schema
   \<and> (frameOK (fieldsOf (toMySQLSchema schema)) q \<longrightarrow>
        fst (snd (buildWhereClause lib schema q i)) = q)
   \<and> ((\<forall>k \<in> fst ` set u. CHR ''.'' \<notin> set k \<and> authDataMatch k = None) \<longrightarrow>
        fst (transformUpdate lib uschema u) = Some u)"
  using fst_buildWhereClause [of lib schema q i] toMySQLSchema_idem [of schema]
    frame(1) [of schema q lib i] transformUpdate_frame [of u lib uschema]
  by blast

theorem compilation_leaves_inputs_witness:
  "fst (buildWhereClause plainSdk
       \<lparr>className = ''Game'', schemaFields = Some [(''score'', JObj [(''type'', JStr ''Number'')])],
          classLevelPermissions = None\<rparr>
       (JObj [(''score'', JObj [(''$gt'', JNum 1)])]) 2) =
     toMySQLSchema
       \<lparr>className = ''Game'', schemaFields = Some [(''score'', JObj [(''type'', JStr ''Number'')])],
          classLevelPermissions = None\<rparr>
   \<and> fst (snd (buildWhereClause plainSdk
       \<lparr>className = ''Game'', schemaFields = Some [(''score'', JObj [(''type'', JStr ''Number'')])],
          classLevelPermissions = None\<rparr>
       (JObj [(''score'', JObj [(''$gt'', JNum 1)])]) 2)) = JObj [(''score'', JObj [(''$gt'', JNum 1)])]
   \<and> fst (transformUpdate plainSdk
       \<lparr>className = ''Game'', schemaFields = Some [(''score'', JObj [(''type'', JStr ''Number'')])],
          classLevelPermissions = None\<rparr>
       [(''name'', JStr ''x'')]) = Some [(''name'', JStr ''x'')]"
proof -
  let ?s = "\<lparr>className = ''Game'', schemaFields = Some [(''score'', JObj [(''type'', JStr ''Number'')])],
          classLevelPermissions = None\<rparr>"
  have a: "frameOK (fieldsOf (toMySQLSchema ?s)) (JObj [(''score'', JObj [(''$gt'', JNum 1)])])"
    by (simp add: frameOK.simps rewritesNe_def openRing_def ownProps_single)
  have b: "\<forall>k \<in> fst ` set [(''name'', JStr ''x'')]. CHR ''.'' \<notin> set k \<and> authDataMatch k = None"
    by (simp add: authDataMatch_def)
  from compilation_leaves_inputs [of plainSdk ?s "JObj [(''score'', JObj [(''$gt'', JNum 1)])]" 2
      "[(''name'', JStr ''x'')]" ?s] a b
  show ?thesis by blast
qed

text \<open>
  The query \<^verbatim>\<open>{tags: {$ne: 1}}\<close> on a schema whose field \<^verbatim>\<open>tags\<close> is an Array: after the
  call the field map of the schema holds \<^verbatim>\<open>_wperm\<close> and \<^verbatim>\<open>_rperm\<close>, and the operand of
  \<^verbatim>\<open>$ne\<close> in the query is the text \<^verbatim>\<open>[1]\<close>.
\<close>

theorem ne_on_array_field_counterexample:
  "buildWhereClause plainSdk
       \<lparr>className = ''Game'', schemaFields = Some [(''tags'', JObj [(''type'', JStr ''Array'')])],
          classLevelPermissions = None\<rparr>
       (JObj [(''tags'', JObj [(''$ne'', JNum 1)])]) 2 =
     (\<lparr>className = ''Game'',
        schemaFields = Some [(''tags'', JObj [(''type'', JStr ''Array'')]),
          (''_wperm'', JObj [(''type'', JStr ''Array''), (''contents'', JObj [(''type'', JStr ''String'')])]),
          (''_rperm'', JObj [(''type'', JStr ''Array''), (''contents'', JObj [(''type'', JStr ''String'')])])],
        classLevelPermissions = None\<rparr>,
      JObj [(''tags'', JObj [(''$ne'', JStr ''[1]'')])],
      Inr \<lparr>pattern = ''JSON_CONTAINS('' @ bq (nm 2) @ '', '' @ sq (nm 3) @ '') != 1'',
           boundValues = [JStr ''tags'', JStr ''[1]''], sortExprs = []\<rparr>)"
  by (simp add: buildWhereClause_single whereField_def firstChain_operator stepNe_def stepEq_def stepIn_def stepAll_def
      stepExists_def stepText_def stepNearSphere_def stepWithin_def stepGeoWithin_def stepRegex_def
      stepPointer_def stepDate_def stepGeoPoint_def ParseToMySQLComparator_def createConstraint_def
      flatMapId_def bindE_def Let_def emit_def toMySQLSchema_def fieldsOf_def fieldDesc_def inheritedNames_def
      JSON_stringify_def numText_1 finish_def transformValue_def)

section \<open>Properties of the regex literalizer\<close>

lemma literalizeRegexPart_Nil: "literalizeRegexPart [] = []"
  by (simp add: literalizeRegexPart.simps [of "[]"] matcher1_def matcher2_def stripMarkers_def
      removeMarkerAtStart_def)

text \<open>
  A pattern that is one quoted span \<^verbatim>\<open>\Q...\E\<close> (not empty, on one line, not starting
  with \<^verbatim>\<open>\E\<close>) is literalized character by character.
\<close>

lemma literalizeRegexPart_span:
  assumes "c \<noteq> []" "take 2 c \<noteq> [bslash, CHR ''E'']" "list_all (\<lambda>x. \<not> lineTerminator x) c"
  shows "literalizeRegexPart ([bslash, CHR ''Q''] @ c @ [bslash, CHR ''E'']) = createLiteralRegex c"
proof -
  let ?s = "[bslash, CHR ''Q''] @ c @ [bslash, CHR ''E'']"
  have t: "take 2 (c @ [bslash, CHR ''E'']) \<noteq> [bslash, CHR ''E'']"
    using assms(1,2) by (cases c; cases "tl c") auto
  have m: "matcher1 ?s = Some c"
    using assms t by (simp add: matcher1_def Let_def)
  have rs: "regexSearch matcher1 ?s = Some (0, c)"
    using m by simp
  show ?thesis
    by (subst literalizeRegexPart.simps, subst rs) (simp add: literalizeRegexPart_Nil)
qed

text \<open>
  C7. \<^verbatim>\<open>\Qa.b\E\<close> becomes \<^verbatim>\<open>a\.b\<close>, with the dot escaped, and \<^verbatim>\<open>^\Qfoo\E\<close> becomes
  \<^verbatim>\<open>^foo\<close>; in general a quoted span, alone, after a leading \<^verbatim>\<open>^\<close> or before a trailing
  \<^verbatim>\<open>$\<close>, becomes its literalization with the anchor kept. A leading \<^verbatim>\<open>^\<close> is kept in
  front of the literalization of the rest; a trailing \<^verbatim>\<open>$\<close> is kept behind the
  literalization of the rest when the pattern does not start with \<^verbatim>\<open>^\<close>; a pattern with
  neither anchor is literalized as it is, with nothing added.
\<close>

theorem processRegexPattern_anchors:
  "processRegexPattern ([bslash] @ ''Qa.b'' @ [bslash] @ ''E'') = ''a'' @ [bslash] @ ''.b''
   \<and> processRegexPattern (''^'' @ [bslash] @ ''Qfoo'' @ [bslash] @ ''E'') = ''^foo''
   \<and> (\<forall>c. c \<noteq> [] \<and> take 2 c \<noteq> [bslash, CHR ''E''] \<and> list_all (\<lambda>x. \<not> lineTerminator x) c \<longrightarrow>
         processRegexPattern ([bslash, CHR ''Q''] @ c @ [bslash, CHR ''E'']) = createLiteralRegex c
         \<and> processRegexPattern (CHR ''^'' # [bslash, CHR ''Q''] @ c @ [bslash, CHR ''E''])
             = CHR ''^'' # createLiteralRegex c
         \<and> processRegexPattern ([bslash, CHR ''Q''] @ c @ [bslash, CHR ''E''] @ ''$'')
             = createLiteralRegex c @ ''$'')
   \<and> (\<forall>s. s \<noteq> [] \<and> hd s = CHR ''^'' \<longrightarrow>
         processRegexPattern s = CHR ''^'' # literalizeRegexPart (tl s))
   \<and> (\<forall>s. s \<noteq> [] \<and> hd s \<noteq> CHR ''^'' \<and> last s = CHR ''$'' \<longrightarrow>
         processRegexPattern s = literalizeRegexPart (butlast s) @ ''$'')
   \<and> (\<forall>s. s = [] \<or> (hd s \<noteq> CHR ''^'' \<and> last s \<noteq> CHR ''$'') \<longrightarrow>
         processRegexPattern s = literalizeRegexPart s)"
proof (intro conjI allI impI)
  show "processRegexPattern ([bslash] @ ''Qa.b'' @ [bslash] @ ''E'') = ''a'' @ [bslash] @ ''.b''"
    by code_simp
  show "processRegexPattern (''^'' @ [bslash] @ ''Qfoo'' @ [bslash] @ ''E'') = ''^foo''"
    by code_simp
next
  fix c :: string
  assume c: "c \<noteq> [] \<and> take 2 c \<noteq> [bslash, CHR ''E''] \<and> list_all (\<lambda>x. \<not> lineTerminator x) c"
  then have sp:
    "literalizeRegexPart ([bslash, CHR ''Q''] @ c @ [bslash, CHR ''E'']) = createLiteralRegex c"
    by (intro literalizeRegexPart_span) simp_all
  show "processRegexPattern ([bslash, CHR ''Q''] @ c @ [bslash, CHR ''E'']) = createLiteralRegex c"
    using sp by (simp add: processRegexPattern_def)
  show "processRegexPattern (CHR ''^'' # [bslash, CHR ''Q''] @ c @ [bslash, CHR ''E''])
             = CHR ''^'' # createLiteralRegex c"
    using sp by (simp add: processRegexPattern_def)
  have "butlast ([bslash, CHR ''Q''] @ c @ [bslash, CHR ''E''] @ ''$'')
          = [bslash, CHR ''Q''] @ c @ [bslash, CHR ''E'']"
    by (simp add: butlast_append)
  then show "processRegexPattern ([bslash, CHR ''Q''] @ c @ [bslash, CHR ''E''] @ ''$'')
             = createLiteralRegex c @ ''$''"
    using sp by (simp add: processRegexPattern_def)
qed (auto simp: processRegexPattern_def)

theorem processRegexPattern_anchors_witness:
  "processRegexPattern ([bslash, CHR ''Q''] @ ''foo.'' @ [bslash, CHR ''E''] @ ''$'')
     = ''foo'' @ [bslash] @ ''.$''
   \<and> processRegexPattern ''abc$'' = literalizeRegexPart ''abc'' @ ''$''
   \<and> processRegexPattern ''^abc'' = CHR ''^'' # literalizeRegexPart ''abc''
   \<and> processRegexPattern ''abc'' = literalizeRegexPart ''abc''"
proof -
  note t = processRegexPattern_anchors
  have c: "''foo.'' \<noteq> [] \<and> take 2 ''foo.'' \<noteq> [bslash, CHR ''E'']
      \<and> list_all (\<lambda>x. \<not> lineTerminator x) ''foo.''"
    by (simp add: lineTerminator_def)
  have l: "createLiteralRegex ''foo.'' = ''foo'' @ [bslash] @ ''.''"
    by (simp add: createLiteralRegex_def isAlnum_def)
  from t have "\<forall>c. c \<noteq> [] \<and> take 2 c \<noteq> [bslash, CHR ''E''] \<and> list_all (\<lambda>x. \<not> lineTerminator x) c \<longrightarrow>
         processRegexPattern ([bslash, CHR ''Q''] @ c @ [bslash, CHR ''E''] @ ''$'')
             = createLiteralRegex c @ ''$''"
    by blast
  with c have "processRegexPattern ([bslash, CHR ''Q''] @ ''foo.'' @ [bslash, CHR ''E''] @ ''$'')
             = createLiteralRegex ''foo.'' @ ''$''"
    by blast
  with l have p1: "processRegexPattern ([bslash, CHR ''Q''] @ ''foo.'' @ [bslash, CHR ''E''] @ ''$'')
     = ''foo'' @ [bslash] @ ''.$''"
    by simp
  from t have "\<forall>s. s \<noteq> [] \<and> hd s \<noteq> CHR ''^'' \<and> last s = CHR ''$'' \<longrightarrow>
         processRegexPattern s = literalizeRegexPart (butlast s) @ ''$''"
    by blast
  from this [rule_format, of "''abc$''"]
  have p2: "processRegexPattern ''abc$'' = literalizeRegexPart ''abc'' @ ''$''" by simp
  from t have "\<forall>s. s \<noteq> [] \<and> hd s = CHR ''^'' \<longrightarrow>
         processRegexPattern s = CHR ''^'' # literalizeRegexPart (tl s)"
    by blast
  from this [rule_format, of "''^abc''"]
  have p3: "processRegexPattern ''^abc'' = CHR ''^'' # literalizeRegexPart ''abc''" by simp
  from t have "\<forall>s. s = [] \<or> (hd s \<noteq> CHR ''^'' \<and> last s \<noteq> CHR ''$'') \<longrightarrow>
         processRegexPattern s = literalizeRegexPart s"
    by blast
  from this [rule_format, of "''abc''"]
  have p4: "processRegexPattern ''abc'' = literalizeRegexPart ''abc''" by simp
  from p1 p2 p3 p4 show ?thesis by simp
qed

text \<open>
  A pattern with both anchors takes the branch of \<^verbatim>\<open>^\<close>, and its \<^verbatim>\<open>$\<close> goes through the
  literalization: in \<^verbatim>\<open>^\Qfoo\E$\<close> the span runs to the end of the input, and the result
  is \<^verbatim>\<open>^foo\\E\$\<close>, with the \<^verbatim>\<open>$\<close> escaped.
\<close>

theorem processRegexPattern_both_anchors_counterexample:
  "processRegexPattern (''^'' @ [bslash] @ ''Qfoo'' @ [bslash] @ ''E$'')
     = ''^foo'' @ [bslash, bslash] @ ''E'' @ [bslash] @ ''$''
   \<and> processRegexPattern (''^'' @ [bslash] @ ''Qfoo'' @ [bslash] @ ''E$'') \<noteq> ''^foo$''"
  by code_simp

section \<open>Termination\<close>

text \<open>
  C9. Every pattern is in the domain of the recursion of \<^verbatim>\<open>literalizeRegexPart\<close> and
  every call of \<^verbatim>\<open>buildWhereClause\<close>, for every query document (which is a finite tree),
  in the domain of the recursion of the compiler (the call, the loop over the fields and
  the \<^verbatim>\<open>forEach\<close> over sub-queries): the recursions are well-founded. The recursive call
  of \<^verbatim>\<open>literalizeRegexPart\<close> is on the prefix before the match, which is strictly
  shorter than the pattern.
\<close>

theorem compilers_terminate:
  "literalizeRegexPart_dom s
   \<and> buildWhereClause_whereFields_whereClauses_dom (Inl (lib, schema, query, i))
   \<and> (\<forall>j r. regexSearch matcher1 s = Some (j, r) \<or> regexSearch matcher2 s = Some (j, r) \<longrightarrow>
         length (take j s) < length s)"
proof -
  have c: "length (take j s) < length s"
    if "regexSearch matcher1 s = Some (j, r) \<or> regexSearch matcher2 s = Some (j, r)" for j r
    using that regexSearch_less [of matcher1 s j r] regexSearch_less [of matcher2 s j r]
    by (auto simp: matcher1_Nil matcher2_Nil)
  from literalizeRegexPart_total buildWhereClause_total c show ?thesis by blast
qed

theorem compilers_terminate_witness:
  "literalizeRegexPart_dom (''ab'' @ [bslash] @ ''Qc.d'' @ [bslash] @ ''E'')
   \<and> buildWhereClause_whereFields_whereClauses_dom
       (Inl (plainSdk, \<lparr>className = ''Game'', schemaFields = None, classLevelPermissions = None\<rparr>,
             JObj [(''$or'', JArr [JObj [(''$and'', JArr [JObj [(''a'', JNum 1)]])],
                                   JObj [(''b'', JNum 2)]])], 2))
   \<and> regexSearch matcher1 (''ab'' @ [bslash] @ ''Qc.d'' @ [bslash] @ ''E'') = Some (2, ''c.d'')
   \<and> length (take 2 (''ab'' @ [bslash] @ ''Qc.d'' @ [bslash] @ ''E''))
       < length (''ab'' @ [bslash] @ ''Qc.d'' @ [bslash] @ ''E'')"
proof -
  have m: "regexSearch matcher1 (''ab'' @ [bslash] @ ''Qc.d'' @ [bslash] @ ''E'') = Some (2, ''c.d'')"
    by code_simp
  from compilers_terminate [of "''ab'' @ [bslash] @ ''Qc.d'' @ [bslash] @ ''E''" plainSdk
      "\<lparr>className = ''Game'', schemaFields = None, classLevelPermissions = None\<rparr>"
      "JObj [(''$or'', JArr [JObj [(''$and'', JArr [JObj [(''a'', JNum 1)]])],
                                   JObj [(''b'', JNum 2)]])]" 2] m
  show ?thesis by blast
qed

section \<open>Properties of the error handling of reads and writes\<close>

text \<open>
  C8. When the driver rejects with the MySQL table-does-not-exist code, \<^verbatim>\<open>find\<close> resolves
  with the empty row list and \<^verbatim>\<open>deleteObjectsByQuery\<close> rejects with the error, but
  \<^verbatim>\<open>count\<close> rejects with the error too instead of resolving with zero: its handler
  compares with the Postgres code, which \<^verbatim>\<open>find\<close> in turn does not swallow.
\<close>

theorem count_rejects_missing_table:
  "find_chain decodeRow (Inl (DriverError ''ER_NO_SUCH_TABLE'')) = Resolved []
   \<and> delete_chain (Inl (DriverError ''ER_NO_SUCH_TABLE'')) = Rejected (DriverError ''ER_NO_SUCH_TABLE'')
   \<and> count_chain (Inl (DriverError ''ER_NO_SUCH_TABLE'')) = Rejected (DriverError ''ER_NO_SUCH_TABLE'')
   \<and> count_chain (Inl (DriverError ''42P01'')) = Resolved (JNum 0)
   \<and> find_chain decodeRow (Inl (DriverError ''42P01'')) = Rejected (DriverError ''42P01'')"
  by (simp add: find_chain_def find_catch_def count_chain_def count_catch_def delete_chain_def
      MySQLRelationDoesNotExistError_def PostgresRelationDoesNotExistError_def)

end
